theory Spec2Isabelle
  imports Main "HOL-Library.Finite_Map" "HOL-Library.Sublist" "HOL-Library.Word"
begin

section \<open>Data model of \<open>common/build.go\<close>\<close>

text \<open>
  Go errors are values built by \<open>errors.New\<close> or handed back by a library call; a run-time
  panic (a nil dereference, an index out of range) is the other way a call can fail.
\<close>

datatype error = errors_New string | Panic string

text \<open>
  A \<open>time.Time\<close> is a wall-clock instant, counted here in nanoseconds from the zero \<open>Time\<close>,
  and it may carry a reading of the monotonic clock, an \<open>int64\<close> of nanoseconds:
  \<open>time.Now()\<close> attaches one where the system has such a clock, the zero \<open>Time\<close> has
  none. A \<open>time.Duration\<close> is an \<open>int64\<close> of nanoseconds.
\<close>

record Time =
  wall_ns :: int
  mono_ns :: "64 word option"

type_synonym Duration = int

definition zero_Time :: Time where
  "zero_Time = \<lparr>wall_ns = 0, mono_ns = None\<rparr>"

type_synonym BuildState = string

definition Pending :: BuildState where "Pending = ''pending''"
definition Running :: BuildState where "Running = ''running''"
definition Failed :: BuildState where "Failed = ''failed''"
definition Success :: BuildState where "Success = ''success''"

text \<open>
  Modelled from the spec: \<open>RunnerConfig\<close> is declared outside \<open>build.go\<close>. The runner
  identity collaborator "supplies an executor type name and a short description string";
  the field \<open>ShortDescription\<close> holds what the method of that name returns.
\<close>

record RunnerConfig =
  Executor :: string
  ShortDescription :: string

text \<open>
  Modelled from the spec: \<open>GetBuildResponse\<close> is declared outside \<open>build.go\<close>; these are the
  three fields of it that \<open>build.go\<close> reads (the build id, the project identity and the
  repository URL).
\<close>

record GetBuildResponse =
  ID :: int
  ProjectID :: int
  RepoURL :: string

text \<open>
  The struct \<open>Build\<close>, which embeds \<open>GetBuildResponse\<close>. \<open>BuildAbort\<close> is a channel
  reference (\<open>None\<close> is the nil channel), \<open>buildLog\<close> the content of the byte buffer. The
  lock \<open>buildLogLock\<close> has no state in a sequential model. \<open>Runner\<close> points to a
  configuration that \<open>build.go\<close> only reads, so the record holds the configuration itself;
  a build whose \<open>Runner\<close> is nil is outside the model.
\<close>

record Build = GetBuildResponse +
  BuildState :: BuildState
  BuildStarted :: Time
  BuildFinished :: Time
  BuildDuration :: Duration
  BuildMessage :: string
  BuildAbort :: "nat option"
  BuildDir :: string
  Hostname :: string
  Runner :: RunnerConfig
  GlobalID :: int
  RunnerID :: int
  ProjectRunnerID :: int
  buildLog :: string

text \<open>
  Builds are passed by pointer (\<open>*Build\<close>). A store maps addresses to the builds that live
  there; an address that holds nothing stands for nil.
\<close>

type_synonym ptr = nat
type_synonym heap = "ptr \<rightharpoonup> Build"

section \<open>The unique-slot allocator: \<open>AssignID\<close>\<close>

text \<open>
  \<open>globals\<close>, \<open>runners\<close> and \<open>projectRunners\<close> are Go maps \<open>map[int]bool\<close>: finite, and a
  lookup of a missing key gives the zero value \<open>false\<close>.
\<close>

type_synonym idmap = "(int, bool) fmap"

definition index :: "idmap \<Rightarrow> int \<Rightarrow> bool" where
  "index m i = (case fmlookup m i of None \<Rightarrow> False | Some v \<Rightarrow> v)"

text \<open>
  The first loop of \<open>AssignID\<close>, over the pointers in \<open>otherBuilds\<close>. Each iteration reads
  \<open>otherBuild.GlobalID\<close> first and \<open>b.Runner\<close> next; either read panics on nil.
\<close>

fun used_ids :: "heap \<Rightarrow> ptr \<Rightarrow> ptr list \<Rightarrow> idmap \<times> idmap \<times> idmap \<Rightarrow> error + idmap \<times> idmap \<times> idmap" where
  "used_ids h b [] (globals, runners, projectRunners) = Inr (globals, runners, projectRunners)"
| "used_ids h b (p # ps) (globals, runners, projectRunners) =
     (case h p of
        None \<Rightarrow> Inl (Panic ''nil pointer dereference'')
      | Some otherBuild \<Rightarrow>
          (case h b of
             None \<Rightarrow> Inl (Panic ''nil pointer dereference'')
           | Some cand \<Rightarrow>
               if ShortDescription (Runner otherBuild) \<noteq> ShortDescription (Runner cand)
               then used_ids h b ps (fmupd (GlobalID otherBuild) True globals, runners, projectRunners)
               else if ProjectID otherBuild \<noteq> ProjectID cand
               then used_ids h b ps
                      (fmupd (GlobalID otherBuild) True globals,
                       fmupd (RunnerID otherBuild) True runners, projectRunners)
               else used_ids h b ps
                      (fmupd (GlobalID otherBuild) True globals,
                       fmupd (RunnerID otherBuild) True runners,
                       fmupd (ProjectRunnerID otherBuild) True projectRunners)))"

text \<open>
  The scan \<open>for i := 0; ; i++ { if !m[i] { ...; break } }\<close>, entered at \<open>i\<close>. It ends
  because the map is finite: every round that goes on leaves one key of the map behind.
\<close>

function first_unused :: "idmap \<Rightarrow> int \<Rightarrow> int" where
  "first_unused m i = (if \<not> index m i then i else first_unused m (i + 1))"
  by pat_completeness auto
termination
proof (relation "measure (\<lambda>(m, i). card {k. k |\<in>| fmdom m \<and> i \<le> k})")
  show "wf (measure (\<lambda>(m, i). card {k. k |\<in>| fmdom m \<and> i \<le> k}))"
    by simp
next
  fix m :: idmap and i :: int
  assume "\<not> \<not> index m i"
  then have mem: "i |\<in>| fmdom m"
    by (auto simp: index_def split: option.splits intro: fmdomI)
  have fin: "finite {k. k |\<in>| fmdom m \<and> i \<le> k}"
    by simp
  have "i \<in> {k. k |\<in>| fmdom m \<and> i \<le> k}" and "i \<notin> {k. k |\<in>| fmdom m \<and> i + 1 \<le> k}"
    using mem by simp_all
  moreover have "{k. k |\<in>| fmdom m \<and> i + 1 \<le> k} \<subseteq> {k. k |\<in>| fmdom m \<and> i \<le> k}"
    by auto
  ultimately have "{k. k |\<in>| fmdom m \<and> i + 1 \<le> k} \<subset> {k. k |\<in>| fmdom m \<and> i \<le> k}"
    by blast
  then have "card {k. k |\<in>| fmdom m \<and> i + 1 \<le> k} < card {k. k |\<in>| fmdom m \<and> i \<le> k}"
    using fin by (rule psubset_card_mono [rotated])
  then show "((m, i + 1), (m, i)) \<in> measure (\<lambda>(m, i). card {k. k |\<in>| fmdom m \<and> i \<le> k})"
    by simp
qed

declare first_unused.simps [simp del]

text \<open>
  \<open>AssignID\<close>: the three scans run on the maps the first loop built, and the three fields
  of the build at \<open>b\<close> are written. (With no other builds the first loop never reads \<open>b\<close>;
  the write to \<open>b.GlobalID\<close> then panics on a nil \<open>b\<close>.)
\<close>

definition AssignID :: "heap \<Rightarrow> ptr \<Rightarrow> ptr list \<Rightarrow> error + heap" where
  "AssignID h b otherBuilds =
     (case used_ids h b otherBuilds (fmempty, fmempty, fmempty) of
        Inl e \<Rightarrow> Inl e
      | Inr (globals, runners, projectRunners) \<Rightarrow>
          (case h b of
             None \<Rightarrow> Inl (Panic ''nil pointer dereference'')
           | Some cand \<Rightarrow>
               Inr (h(b \<mapsto> cand\<lparr>GlobalID := first_unused globals 0,
                                  RunnerID := first_unused runners 0,
                                  ProjectRunnerID := first_unused projectRunners 0\<rparr>))))"


text \<open>The builds that a list of pointers reaches, in order (nil pointers reach none).\<close>

fun builds_at :: "heap \<Rightarrow> ptr list \<Rightarrow> Build list" where
  "builds_at h [] = []"
| "builds_at h (p # ps) = (case h p of None \<Rightarrow> builds_at h ps | Some ob \<Rightarrow> ob # builds_at h ps)"

text \<open>The two scopes of \<open>AssignID\<close>: the comparisons that guard its two \<open>continue\<close>s.\<close>

definition same_runner :: "Build \<Rightarrow> Build \<Rightarrow> bool" where
  "same_runner x y \<longleftrightarrow> ShortDescription (Runner x) = ShortDescription (Runner y)"

definition same_project :: "Build \<Rightarrow> Build \<Rightarrow> bool" where
  "same_project x y \<longleftrightarrow> ProjectID x = ProjectID y"

definition runner_scope :: "Build \<Rightarrow> Build list \<Rightarrow> Build list" where
  "runner_scope cand obs = filter (\<lambda>ob. same_runner ob cand) obs"

definition project_scope :: "Build \<Rightarrow> Build list \<Rightarrow> Build list" where
  "project_scope cand obs = filter (\<lambda>ob. same_runner ob cand \<and> same_project ob cand) obs"

text \<open>\<open>n\<close> is the smallest non-negative integer that is not in \<open>S\<close>.\<close>

definition smallest_unused :: "int \<Rightarrow> int set \<Rightarrow> bool" where
  "smallest_unused n S \<longleftrightarrow> 0 \<le> n \<and> n \<notin> S \<and> (\<forall>j. 0 \<le> j \<and> j < n \<longrightarrow> j \<in> S)"

text \<open>The keys a \<open>map[int]bool\<close> answers \<open>true\<close> for.\<close>

definition keys :: "idmap \<Rightarrow> int set" where
  "keys m = {i. index m i}"

text \<open>
  Two builds do not collide: their \<open>GlobalID\<close>s differ, their \<open>RunnerID\<close>s differ when the
  runners have the same short description, and their \<open>ProjectRunnerID\<close>s differ when the
  project is the same as well.
\<close>

definition no_clash :: "Build \<Rightarrow> Build \<Rightarrow> bool" where
  "no_clash x y \<longleftrightarrow>
     GlobalID x \<noteq> GlobalID y \<and>
     (same_runner x y \<longrightarrow> RunnerID x \<noteq> RunnerID y) \<and>
     (same_runner x y \<and> same_project x y \<longrightarrow> ProjectRunnerID x \<noteq> ProjectRunnerID y)"

definition unique_ids :: "heap \<Rightarrow> ptr list \<Rightarrow> bool" where
  "unique_ids h active \<longleftrightarrow>
     distinct active \<and>
     (\<forall>p\<in>set active. \<forall>q\<in>set active. p \<noteq> q \<longrightarrow>
        (case (h p, h q) of (Some x, Some y) \<Rightarrow> no_clash x y | _ \<Rightarrow> False))"

text \<open>
  The histories of a set of active builds in which every build got its identities from
  \<open>AssignID\<close>, run on the builds that were active when it was allocated: the caller reads
  the active set, assigns and registers the new build in one step. Between allocations
  memory that belongs to no active build may change (a new record is filled in), a build
  may change in every field but its three identities, its project and its runner's short
  description (it is started, writes its log, is finished), and any active build may
  finish and leave.
\<close>

definition same_identity :: "Build \<Rightarrow> Build \<Rightarrow> bool" where
  "same_identity x y \<longleftrightarrow>
     GlobalID x = GlobalID y \<and> RunnerID x = RunnerID y \<and> ProjectRunnerID x = ProjectRunnerID y \<and>
     ProjectID x = ProjectID y \<and> ShortDescription (Runner x) = ShortDescription (Runner y)"

inductive registry :: "heap \<Rightarrow> ptr list \<Rightarrow> bool" where
  start: "registry h []"
| create: "registry h active \<Longrightarrow> p \<notin> set active \<Longrightarrow> registry (h(p \<mapsto> v)) active"
| allocate: "registry h active \<Longrightarrow> b \<notin> set active \<Longrightarrow> AssignID h b active = Inr h' \<Longrightarrow>
     registry h' (b # active)"
| progress: "registry h active \<Longrightarrow> h p = Some x \<Longrightarrow> same_identity x y \<Longrightarrow>
     registry (h(p \<mapsto> y)) active"
| release: "registry h (xs @ p # ys) \<Longrightarrow> registry h (xs @ ys)"

definition registry_inv :: "heap \<Rightarrow> ptr list \<Rightarrow> bool" where
  "registry_inv h active \<longleftrightarrow>
     distinct active \<and> (\<forall>p\<in>set active. h p \<noteq> None) \<and>
     (\<forall>p\<in>set active. \<forall>q\<in>set active. \<forall>x y.
        p \<noteq> q \<longrightarrow> h p = Some x \<longrightarrow> h q = Some y \<longrightarrow> no_clash x y)"

section \<open>Starting and finishing a build\<close>

text \<open>
  \<open>Time.Sub\<close>, as the library computes it. When both instants carry a monotonic reading
  it subtracts the readings (\<open>subMono\<close>): the \<open>int64\<close> difference wraps around, and the
  signs tell when it did. Otherwise it subtracts the wall-clock instants in \<open>int64\<close>
  arithmetic and keeps the difference \<open>d\<close> if \<open>u.Add(d)\<close> is \<open>t\<close> again. In both cases
  a difference that does not fit is replaced by the largest or the smallest \<open>Duration\<close>.
\<close>

definition maxDuration :: Duration where "maxDuration = 2 ^ 63 - 1"
definition minDuration :: Duration where "minDuration = - (2 ^ 63)"

definition wrap64 :: "int \<Rightarrow> int" where
  "wrap64 x = (x + 2 ^ 63) mod 2 ^ 64 - 2 ^ 63"

definition subMono :: "64 word \<Rightarrow> 64 word \<Rightarrow> Duration" where
  "subMono t u =
     (let d = t - u
      in if sint d < 0 \<and> sint u < sint t then maxDuration
         else if 0 < sint d \<and> sint t < sint u then minDuration
         else sint d)"

definition Time_Sub :: "Time \<Rightarrow> Time \<Rightarrow> Duration" where
  "Time_Sub t u =
     (case (mono_ns t, mono_ns u) of
        (Some tm, Some um) \<Rightarrow> subMono tm um
      | _ \<Rightarrow>
          (let d = wrap64 (wall_ns t - wall_ns u)
           in if wall_ns u + d = wall_ns t then d
              else if wall_ns t < wall_ns u then minDuration
              else maxDuration))"

text \<open>A difference of instants, limited to the range of a \<open>Duration\<close>.\<close>

definition saturated :: "int \<Rightarrow> Duration" where
  "saturated d = max minDuration (min maxDuration d)"

text \<open>
  The operands of a \<open>fmt.Sprintf\<close> call are \<open>interface{}\<close> values; the calls in
  \<open>build.go\<close> and in the specification pass integers and strings. \<open>fmt.Sprintf\<close> itself
  is a parameter \<open>Sprintf\<close> of the functions that call it, and \<open>time.Now()\<close> a parameter
  \<open>now\<close>.
\<close>

datatype operand = GoInt int | GoString string

definition StartBuild :: "Time \<Rightarrow> string \<Rightarrow> Build \<Rightarrow> Build" where
  "StartBuild now buildDir b =
     (let b = b\<lparr>BuildStarted := now\<rparr>;
          b = b\<lparr>BuildState := Pending\<rparr>
      in b\<lparr>BuildDir := buildDir\<rparr>)"

definition FinishBuild ::
  "(string \<Rightarrow> operand list \<Rightarrow> string) \<Rightarrow> Time \<Rightarrow> BuildState \<Rightarrow> string \<Rightarrow> operand list \<Rightarrow> Build \<Rightarrow> Build" where
  "FinishBuild Sprintf now buildState buildMessage args b =
     (let b = b\<lparr>BuildState := buildState\<rparr>;
          b = b\<lparr>BuildMessage := CHR 0x0A # Sprintf buildMessage args\<rparr>;
          b = b\<lparr>BuildFinished := now\<rparr>
      in b\<lparr>BuildDuration := Time_Sub (BuildFinished b) (BuildStarted b)\<rparr>)"

text \<open>Sequences of the two operations on one build record.\<close>

datatype lifecycle_op =
  Op_StartBuild Time string
| Op_FinishBuild Time BuildState string "operand list"

fun apply_op :: "(string \<Rightarrow> operand list \<Rightarrow> string) \<Rightarrow> Build \<Rightarrow> lifecycle_op \<Rightarrow> Build" where
  "apply_op Sprintf b (Op_StartBuild now buildDir) = StartBuild now buildDir b"
| "apply_op Sprintf b (Op_FinishBuild now buildState buildMessage args) =
     FinishBuild Sprintf now buildState buildMessage args b"

definition apply_ops :: "(string \<Rightarrow> operand list \<Rightarrow> string) \<Rightarrow> Build \<Rightarrow> lifecycle_op list \<Rightarrow> Build" where
  "apply_ops Sprintf b ops = foldl (apply_op Sprintf) b ops"

section \<open>The status reporter: \<open>SendBuildLog\<close>\<close>

text \<open>\<open>BuildLog\<close> reads the whole buffer (the read lock has no effect on what is read).\<close>

definition BuildLog :: "Build \<Rightarrow> string" where
  "BuildLog b = buildLog b"

text \<open>
  Modelled from the spec: the result type of the reporting collaborator is declared outside
  \<open>build.go\<close>, which names only the outcome \<open>UpdateFailed\<close> (the specification's "Retry").
  \<open>UpdateSucceeded\<close> is the specification's "Ok" and \<open>UpdateAbort\<close> stands for "any
  non-retry outcome". The constant \<open>UpdateRetryInterval\<close>, declared outside \<open>build.go\<close> as
  well, is a parameter of the functions that use it.
\<close>

datatype UpdateState = UpdateSucceeded | UpdateAbort | UpdateFailed

text \<open>
  What a run does to the outside is the list of the calls it makes, in order.
  \<open>responses w k\<close> is what the collaborator will answer to the \<open>k\<close>-th reporting call
  from now.
\<close>

datatype event =
  Call_UpdateBuild RunnerConfig int BuildState string
| Call_Sleep Duration
| Call_Prepare
| Call_Start
| Call_Wait
| Call_Finish "error option"
| Call_Cleanup

record world =
  responses :: "nat \<Rightarrow> UpdateState"
  events :: "event list"

definition record_call :: "event \<Rightarrow> world \<Rightarrow> world" where
  "record_call e w = w\<lparr>events := events w @ [e]\<rparr>"

text \<open>
  Modelled from the spec: the reporting collaborator \<open>UpdateBuild\<close> is declared outside
  \<open>build.go\<close>: "report(runnerIdentity, buildID, state, trace) -> {Ok, Retry}". A call is
  recorded and takes the collaborator's next answer.
\<close>

definition UpdateBuild :: "RunnerConfig \<Rightarrow> int \<Rightarrow> BuildState \<Rightarrow> string \<Rightarrow> world \<Rightarrow> UpdateState \<times> world" where
  "UpdateBuild config buildID state trace w =
     (responses w 0,
      record_call (Call_UpdateBuild config buildID state trace) (w\<lparr>responses := (\<lambda>k. responses w (Suc k))\<rparr>))"

text \<open>\<open>time.Second\<close>, in nanoseconds, and \<open>time.Sleep\<close>, which is recorded as a call.\<close>

definition Second :: Duration where "Second = 1000000000"

definition time_Sleep :: "Duration \<Rightarrow> world \<Rightarrow> world" where
  "time_Sleep d w = record_call (Call_Sleep d) w"

text \<open>
  The loop of \<open>SendBuildLog\<close> has no bound: it goes on for as long as the collaborator
  answers \<open>UpdateFailed\<close>. \<open>None\<close> is a run that never leaves the loop. The trace is
  built before the loop, by \<open>buildTrace_of\<close>.
\<close>

partial_function (option) report_until_accepted ::
  "int \<Rightarrow> RunnerConfig \<Rightarrow> int \<Rightarrow> BuildState \<Rightarrow> string \<Rightarrow> world \<Rightarrow> world option" where
  "report_until_accepted UpdateRetryInterval config buildID state buildTrace w =
     (case UpdateBuild config buildID state buildTrace w of
        (r, w') \<Rightarrow>
          if r \<noteq> UpdateFailed then Some w'
          else report_until_accepted UpdateRetryInterval config buildID state buildTrace
                 (time_Sleep (UpdateRetryInterval * Second) w'))"

definition buildTrace_of :: "Build \<Rightarrow> string" where
  "buildTrace_of b =
     (let buildTrace = BuildLog b
      in if BuildMessage b \<noteq> [] then buildTrace @ BuildMessage b else buildTrace)"

definition SendBuildLog :: "int \<Rightarrow> Build \<Rightarrow> world \<Rightarrow> world option" where
  "SendBuildLog UpdateRetryInterval b w =
     report_until_accepted UpdateRetryInterval (Runner b) (ID b) (BuildState b) (buildTrace_of b) w"

text \<open>What \<open>n\<close> rejected reports and the accepted one leave in the list of calls.\<close>

definition retried :: "nat \<Rightarrow> event \<Rightarrow> event \<Rightarrow> event list" where
  "retried n report sleep = concat (replicate n [report, sleep]) @ [report]"

section \<open>The orchestrator: \<open>Run\<close>\<close>

text \<open>
  Modelled from the spec: the \<open>Executor\<close> interface and the lookup \<open>GetExecutor\<close> are
  declared outside \<open>build.go\<close>. An executor is its five stages; a stage may change the build
  it was given in \<open>Prepare\<close> and the executor's own state \<open>'s\<close>, and \<open>Prepare\<close>, \<open>Start\<close>
  and \<open>Wait\<close> return an error or nil (\<open>None\<close>). Every stage returns. \<open>GetExecutor\<close> is a
  parameter of \<open>Run\<close>: a lookup by name that finds an executor or nil (\<open>None\<close>).
\<close>

record 's Executor =
  Prepare :: "RunnerConfig \<Rightarrow> Build \<times> 's \<Rightarrow> error option \<times> Build \<times> 's"
  Start :: "Build \<times> 's \<Rightarrow> error option \<times> Build \<times> 's"
  Wait :: "Build \<times> 's \<Rightarrow> error option \<times> Build \<times> 's"
  Finish :: "error option \<Rightarrow> Build \<times> 's \<Rightarrow> Build \<times> 's"
  Cleanup :: "Build \<times> 's \<Rightarrow> Build \<times> 's"

text \<open>
  \<open>Run\<close>, on a build \<open>b\<close> that is not nil, with the executor's state \<open>s\<close> and the
  outside world \<open>w\<close>. Each call of a stage is recorded before the stage runs. The test
  \<open>executor != nil\<close> before \<open>Cleanup\<close> is always true where it stands. \<open>None\<close> is a run
  that never returns.
\<close>

definition Run ::
  "(string \<Rightarrow> operand list \<Rightarrow> string) \<Rightarrow> (string \<Rightarrow> 's Executor option) \<Rightarrow> int \<Rightarrow> Time \<Rightarrow>
   Build \<Rightarrow> 's \<Rightarrow> world \<Rightarrow> (error option \<times> Build \<times> 's \<times> world) option" where
  "Run Sprintf GetExecutor UpdateRetryInterval now b s w =
     (case GetExecutor (Executor (Runner b)) of
        None \<Rightarrow>
          (let b = FinishBuild Sprintf now Failed ''Executor not found: %v''
                     [GoString (Executor (Runner b))] b
           in case SendBuildLog UpdateRetryInterval b w of
                None \<Rightarrow> None
              | Some w \<Rightarrow> Some (Some (errors_New ''executor not found''), b, s, w))
      | Some executor \<Rightarrow>
          (let w = record_call Call_Prepare w;
               (err, bs) = Prepare executor (Runner b) (b, s);
               (err, bs, w) =
                 (if err = None
                  then (let w = record_call Call_Start w; (err, bs) = Start executor bs in (err, bs, w))
                  else (err, bs, w));
               (err, bs, w) =
                 (if err = None
                  then (let w = record_call Call_Wait w; (err, bs) = Wait executor bs in (err, bs, w))
                  else (err, bs, w));
               w = record_call (Call_Finish err) w;
               bs = Finish executor err bs;
               w = record_call Call_Cleanup w;
               bs = Cleanup executor bs
           in Some (err, fst bs, snd bs, w)))"

section \<open>The project path: \<open>ProjectSlug\<close>\<close>

text \<open>
  The library calls of \<open>ProjectSlug\<close>, on a system whose path separator is the slash.
  \<open>strings.Split\<close> is modelled for a separator of one byte, which is how \<open>ProjectSlug\<close>
  calls it: \<open>k\<close> separators give \<open>k + 1\<close> fields.
\<close>

fun strings_Split :: "string \<Rightarrow> char \<Rightarrow> string list" where
  "strings_Split [] sep = [[]]"
| "strings_Split (c # cs) sep =
     (if c = sep then [] # strings_Split cs sep
      else (case strings_Split cs sep of [] \<Rightarrow> [[c]] | f # fs \<Rightarrow> (c # f) # fs))"

fun strings_Join :: "string list \<Rightarrow> string \<Rightarrow> string" where
  "strings_Join [] sep = []"
| "strings_Join [e] sep = e"
| "strings_Join (e # es) sep = e @ sep @ strings_Join es sep"

definition strings_TrimSuffix :: "string \<Rightarrow> string \<Rightarrow> string" where
  "strings_TrimSuffix s suf = (if suffix suf s then take (length s - length suf) s else s)"

fun strings_Contains :: "string \<Rightarrow> string \<Rightarrow> bool" where
  "strings_Contains [] substr = (substr = [])"
| "strings_Contains (c # cs) substr = (prefix substr (c # cs) \<or> strings_Contains cs substr)"

text \<open>
  \<open>filepath.Clean\<close>, element by element: empty elements and \<open>.\<close> are dropped; \<open>..\<close>
  removes the element before it when that is not \<open>..\<close> itself, is dropped at the root of
  a rooted path, and is kept otherwise; an empty result is \<open>.\<close>. \<open>out\<close> holds the
  elements kept so far, the last one first.
\<close>

definition clean_elem :: "bool \<Rightarrow> string list \<Rightarrow> string \<Rightarrow> string list" where
  "clean_elem rooted out e =
     (if e = [] \<or> e = ''.'' then out
      else if e = ''..'' then
        (case out of
           [] \<Rightarrow> if rooted then [] else [''..'']
         | kept # below \<Rightarrow> if kept = ''..'' then ''..'' # out else below)
      else e # out)"

definition filepath_Clean :: "string \<Rightarrow> string" where
  "filepath_Clean path =
     (let rooted = (case path of [] \<Rightarrow> False | c # _ \<Rightarrow> c = CHR ''/'');
          out = foldl (clean_elem rooted) [] (strings_Split path (CHR ''/''));
          cleaned = (if rooted then ''/'' else []) @ strings_Join (rev out) ''/''
      in if cleaned = [] then ''.'' else cleaned)"

text \<open>\<open>filepath.Join\<close> skips the leading empty elements, joins the rest and cleans.\<close>

definition filepath_Join :: "string list \<Rightarrow> string" where
  "filepath_Join elem =
     (case dropWhile (\<lambda>e. e = []) elem of
        [] \<Rightarrow> []
      | es \<Rightarrow> filepath_Clean (strings_Join es ''/''))"

text \<open>
  The two fields of a parsed \<open>url.URL\<close> that \<open>ProjectSlug\<close> reads. \<open>url.Parse\<close> itself is a
  parameter: a function from the raw URL to an error or the parsed URL.
\<close>

record URL =
  Host :: string
  Path :: string

definition ProjectSlug :: "(string \<Rightarrow> error + URL) \<Rightarrow> Build \<Rightarrow> error + string" where
  "ProjectSlug url_Parse b =
     (case url_Parse (RepoURL b) of
        Inl err \<Rightarrow> Inl err
      | Inr url \<Rightarrow>
          if Host url = [] then Inl (errors_New ''only URI reference supported'')
          else
            (case strings_Split (Host url) (CHR '':'') of
               [] \<Rightarrow> Inl (Panic ''index out of range'')
             | host0 # _ \<Rightarrow>
                 (let slug = filepath_Join [host0, Path url];
                      slug = strings_TrimSuffix slug ''.git'';
                      slug = filepath_Clean slug
                  in if slug = ''.'' then Inl (errors_New ''invalid path'')
                     else if strings_Contains slug ''..''
                     then Inl (errors_New ''it doesn't look like a valid path'')
                     else Inr slug)))"

text \<open>The elements of a slash-separated path, and the hostname in front of a port.\<close>

definition path_elements :: "string \<Rightarrow> string list" where
  "path_elements p = strings_Split p (CHR ''/'')"

definition hostname :: "string \<Rightarrow> string" where
  "hostname h = takeWhile (\<lambda>c. c \<noteq> CHR '':'') h"

text \<open>
  What \<open>ProjectSlug\<close> computes from the hostname and the path of a parsed URL whose host is
  not empty.
\<close>

definition slug_of :: "string \<Rightarrow> string \<Rightarrow> string" where
  "slug_of host0 path = filepath_Clean (strings_TrimSuffix (filepath_Join [host0, path]) ''.git'')"

text \<open>Which of the calls in a list are calls of an executor stage, and which call \<open>Finish\<close>.\<close>

definition executor_calls :: "event list \<Rightarrow> event list" where
  "executor_calls calls =
     filter (\<lambda>e. case e of Call_UpdateBuild c i st tr \<Rightarrow> False | Call_Sleep d \<Rightarrow> False | _ \<Rightarrow> True) calls"

definition finish_calls :: "event list \<Rightarrow> event list" where
  "finish_calls calls = filter (\<lambda>e. case e of Call_Finish x \<Rightarrow> True | _ \<Rightarrow> False) calls"

section \<open>Example values\<close>

text \<open>The zero value of \<open>Build\<close>, and builds that differ from it in a few fields.\<close>

definition new_build :: Build where
  "new_build = \<lparr>ID = 0, ProjectID = 0, RepoURL = [], BuildState = [], BuildStarted = zero_Time,
     BuildFinished = zero_Time, BuildDuration = 0, BuildMessage = [], BuildAbort = None, BuildDir = [],
     Hostname = [], Runner = \<lparr>Executor = [], ShortDescription = []\<rparr>, GlobalID = 0,
     RunnerID = 0, ProjectRunnerID = 0, buildLog = []\<rparr>"

text \<open>
  Three readings of \<open>time.Now()\<close> on 3 November 2026. Between the first and the second
  the monotonic clock advanced by 3000 nanoseconds and the wall clock, which was adjusted,
  by 3007.
\<close>

definition instant :: "int \<Rightarrow> 64 word \<Rightarrow> Time" where
  "instant w m = \<lparr>wall_ns = w, mono_ns = Some m\<rparr>"

definition t_start :: Time where "t_start = instant 63929260800000000000 1000"
definition t_finish :: Time where "t_finish = instant 63929260800000003007 4000"
definition t_restart :: Time where "t_restart = instant 63929260800000009000 9993"

definition with_ids :: "Build \<Rightarrow> int \<Rightarrow> int \<Rightarrow> int \<Rightarrow> Build" where
  "with_ids b g r q = b\<lparr>GlobalID := g, RunnerID := r, ProjectRunnerID := q\<rparr>"

definition runner_shell :: RunnerConfig where
  "runner_shell = \<lparr>Executor = ''shell'', ShortDescription = ''4f3b2a1c''\<rparr>"

definition runner_docker_ssh :: RunnerConfig where
  "runner_docker_ssh = \<lparr>Executor = ''docker-ssh'', ShortDescription = ''9e8d7c6b''\<rparr>"

definition job7 :: Build where
  "job7 = new_build\<lparr>ProjectID := 7, Runner := runner_shell\<rparr>"

definition job8 :: Build where
  "job8 = new_build\<lparr>ProjectID := 8, Runner := runner_shell\<rparr>"

text \<open>
  A store with a new build at address 0 and two active builds, whose \<open>GlobalID\<close>s are 0
  and 2, at addresses 1 and 2.
\<close>

definition heap02 :: heap where
  "heap02 = [0 \<mapsto> job7, 1 \<mapsto> with_ids job7 0 0 0, 2 \<mapsto> with_ids job8 2 1 0]"

text \<open>
  A history: the builds at 10, 11 and 12 are allocated one after the other, the build at
  11 finishes, and the build at 13 is allocated.
\<close>

definition pool :: heap where
  "pool = [10 \<mapsto> job7, 11 \<mapsto> job7, 12 \<mapsto> job7, 13 \<mapsto> job8]"

definition heap_a :: heap where "heap_a = pool(10 \<mapsto> with_ids job7 0 0 0)"
definition heap_b :: heap where "heap_b = heap_a(11 \<mapsto> with_ids job7 1 1 1)"
definition heap_c :: heap where "heap_c = heap_b(12 \<mapsto> with_ids job7 2 2 2)"
definition heap_d :: heap where "heap_d = heap_c(13 \<mapsto> with_ids job8 1 1 0)"

text \<open>
  Instances of the library parameters for the examples: a \<open>Sprintf\<close> and a \<open>url.Parse\<close>
  that know the results of the calls listed and nothing else.
\<close>

definition Sprintf_known :: "((string \<times> operand list) \<times> string) list \<Rightarrow> string \<Rightarrow> operand list \<Rightarrow> string" where
  "Sprintf_known table format args = (case map_of table (format, args) of None \<Rightarrow> format | Some s \<Rightarrow> s)"

definition Sprintf_examples :: "string \<Rightarrow> operand list \<Rightarrow> string" where
  "Sprintf_examples = Sprintf_known
     [((''boom %d'', [GoInt 7]), ''boom 7''),
      ((''Executor not found: %v'', [GoString ''docker-ssh'']), ''Executor not found: docker-ssh'')]"

definition url_Parse_known :: "(string \<times> URL) list \<Rightarrow> string \<Rightarrow> error + URL" where
  "url_Parse_known table rawurl =
     (case map_of table rawurl of None \<Rightarrow> Inl (errors_New ''parse error'') | Some u \<Rightarrow> Inr u)"

definition url_Parse_examples :: "string \<Rightarrow> error + URL" where
  "url_Parse_examples = url_Parse_known
     [(''https://gitlab.example.com/group/project.git'',
         \<lparr>Host = ''gitlab.example.com'', Path = ''/group/project.git''\<rparr>),
      (''https://gitlab.example.com:8080/group/project.git'',
         \<lparr>Host = ''gitlab.example.com:8080'', Path = ''/group/project.git''\<rparr>),
      (''https://gitlab.example.com/group/my..project.git'',
         \<lparr>Host = ''gitlab.example.com'', Path = ''/group/my..project.git''\<rparr>),
      (''https://gitlab.example.com/../../etc'',
         \<lparr>Host = ''gitlab.example.com'', Path = ''/../../etc''\<rparr>),
      (''group/project.git'', \<lparr>Host = [], Path = ''group/project.git''\<rparr>)]"

definition build_for :: "string \<Rightarrow> Build" where
  "build_for rawurl = new_build\<lparr>RepoURL := rawurl\<rparr>"

text \<open>
  A collaborator that gives the listed answers and accepts from then on, and one that
  never accepts.
\<close>

definition answers :: "UpdateState list \<Rightarrow> nat \<Rightarrow> UpdateState" where
  "answers rs k = (if k < length rs then rs ! k else UpdateSucceeded)"

definition never_accepts :: "nat \<Rightarrow> UpdateState" where
  "never_accepts k = UpdateFailed"

definition world_retry3 :: world where
  "world_retry3 = \<lparr>responses = answers [UpdateFailed, UpdateFailed, UpdateFailed, UpdateSucceeded], events = []\<rparr>"

definition world_never :: world where
  "world_never = \<lparr>responses = never_accepts, events = []\<rparr>"

definition failed_job :: Build where
  "failed_job = new_build\<lparr>ID := 42, BuildState := Failed, BuildMessage := CHR 0x0A # ''boom 7'',
     Runner := runner_shell, buildLog := ''$ make''\<rparr>"

definition orphan_job :: Build where
  "orphan_job = new_build\<lparr>ID := 43, Runner := runner_docker_ssh, buildLog := ''$ make''\<rparr>"

text \<open>
  A registry of executors as a table, the empty registry, and an executor whose \<open>Prepare\<close>
  fails; its state counts the stages that ran.
\<close>

definition registered :: "(string \<times> 's Executor) list \<Rightarrow> string \<Rightarrow> 's Executor option" where
  "registered table name = map_of table name"

definition no_executors :: "string \<Rightarrow> nat Executor option" where
  "no_executors = registered []"

definition stage_ok :: "Build \<times> nat \<Rightarrow> error option \<times> Build \<times> nat" where
  "stage_ok bs = (None, fst bs, Suc (snd bs))"

definition stage_fails :: "string \<Rightarrow> Build \<times> nat \<Rightarrow> error option \<times> Build \<times> nat" where
  "stage_fails msg bs = (Some (errors_New msg), fst bs, Suc (snd bs))"

definition stage_done :: "Build \<times> nat \<Rightarrow> Build \<times> nat" where
  "stage_done bs = (fst bs, Suc (snd bs))"

text \<open>
  An executor that does what \<open>ex\<close> does and keeps, in its own state, the list of the
  stages that were called on it.
\<close>

definition recording :: "'s Executor \<Rightarrow> ('s \<times> event list) Executor" where
  "recording ex =
     \<lparr>Prepare = (\<lambda>config (b, s, calls).
        case Prepare ex config (b, s) of (err, b', s') \<Rightarrow> (err, b', s', calls @ [Call_Prepare])),
      Start = (\<lambda>(b, s, calls).
        case Start ex (b, s) of (err, b', s') \<Rightarrow> (err, b', s', calls @ [Call_Start])),
      Wait = (\<lambda>(b, s, calls).
        case Wait ex (b, s) of (err, b', s') \<Rightarrow> (err, b', s', calls @ [Call_Wait])),
      Finish = (\<lambda>err (b, s, calls).
        case Finish ex err (b, s) of (b', s') \<Rightarrow> (b', s', calls @ [Call_Finish err])),
      Cleanup = (\<lambda>(b, s, calls).
        case Cleanup ex (b, s) of (b', s') \<Rightarrow> (b', s', calls @ [Call_Cleanup]))\<rparr>"

definition unreachable_daemon :: "nat Executor" where
  "unreachable_daemon =
     \<lparr>Prepare = (\<lambda>config. stage_fails ''cannot connect to the daemon''),
      Start = stage_ok, Wait = stage_ok,
      Finish = (\<lambda>err. stage_done), Cleanup = stage_done\<rparr>"

section \<open>Properties of the allocator\<close>

lemma keys_fmempty: "keys fmempty = {}"
  by (simp add: keys_def index_def)

lemma keys_fmupd: "keys (fmupd k True m) = insert k (keys m)"
  by (auto simp: keys_def index_def)

lemma finite_keys: "finite (keys m)"
proof -
  have "keys m \<subseteq> fmdom' m"
    by (auto simp: keys_def index_def split: option.splits intro: fmdom'I)
  then show ?thesis by (rule finite_subset) simp
qed

lemma set_builds_at: "set (builds_at h ps) = {ob. \<exists>p\<in>set ps. h p = Some ob}"
  by (induction ps) (auto split: option.splits)

lemma length_builds_at: "length (builds_at h ps) \<le> length ps"
  by (induction ps) (auto split: option.splits)

text \<open>The first loop: what the three maps hold when it ends.\<close>

lemma used_ids_keys:
  assumes "h b = Some cand" and "\<forall>p\<in>set ps. h p \<noteq> None"
  shows "\<exists>g r q. used_ids h b ps (g0, r0, q0) = Inr (g, r, q) \<and>
     keys g = keys g0 \<union> GlobalID ` set (builds_at h ps) \<and>
     keys r = keys r0 \<union> RunnerID ` {ob \<in> set (builds_at h ps). same_runner ob cand} \<and>
     keys q = keys q0 \<union>
       ProjectRunnerID ` {ob \<in> set (builds_at h ps). same_runner ob cand \<and> same_project ob cand}"
  using assms(2)
proof (induction ps arbitrary: g0 r0 q0)
  case Nil
  then show ?case by simp
next
  case (Cons p ps)
  from Cons.prems obtain ob where ob: "h p = Some ob" by auto
  from Cons.prems have rest: "\<forall>p\<in>set ps. h p \<noteq> None" by simp
  note IH = Cons.IH [OF rest]
  show ?case
  proof (cases "same_runner ob cand")
    case False
    with IH [of "fmupd (GlobalID ob) True g0" r0 q0] ob assms(1) show ?thesis
      by (auto simp: keys_fmupd same_runner_def)
  next
    case True
    show ?thesis
    proof (cases "same_project ob cand")
      case False
      with True IH [of "fmupd (GlobalID ob) True g0" "fmupd (RunnerID ob) True r0" q0] ob assms(1)
      show ?thesis
        by (auto simp: keys_fmupd same_runner_def same_project_def)
    next
      case sp: True
      with True IH [of "fmupd (GlobalID ob) True g0" "fmupd (RunnerID ob) True r0"
          "fmupd (ProjectRunnerID ob) True q0"] ob assms(1)
      show ?thesis
        by (auto simp: keys_fmupd same_runner_def same_project_def)
    qed
  qed
qed

text \<open>The scan: it stops at the first key from \<open>i\<close> on that the map does not hold.\<close>

lemma first_unused_spec:
  "i \<le> first_unused m i \<and> first_unused m i \<notin> keys m \<and>
   (\<forall>j. i \<le> j \<and> j < first_unused m i \<longrightarrow> j \<in> keys m)"
proof (induction m i rule: first_unused.induct)
  case (1 m i)
  show ?case
  proof (cases "index m i")
    case False
    then show ?thesis by (auto simp: first_unused.simps [of m i] keys_def)
  next
    case True
    then have eq: "first_unused m i = first_unused m (i + 1)"
      by (simp add: first_unused.simps [of m i])
    from True 1 have IH: "i + 1 \<le> first_unused m (i + 1) \<and> first_unused m (i + 1) \<notin> keys m \<and>
       (\<forall>j. i + 1 \<le> j \<and> j < first_unused m (i + 1) \<longrightarrow> j \<in> keys m)" by simp
    have "j \<in> keys m" if "i \<le> j" "j < first_unused m (i + 1)" for j
    proof (cases "j = i")
      case True
      with \<open>index m i\<close> show ?thesis by (simp add: keys_def)
    next
      case False
      with that IH show ?thesis by auto
    qed
    with IH eq show ?thesis by auto
  qed
qed

lemma first_unused_smallest: "smallest_unused (first_unused m 0) (keys m)"
  using first_unused_spec [of 0 m] by (simp add: smallest_unused_def)

lemma smallest_unused_unique: "smallest_unused n S \<Longrightarrow> smallest_unused k S \<Longrightarrow> n = k"
  unfolding smallest_unused_def by (metis linorder_neqE_linordered_idom)

text \<open>
  The scan never gets past the number of other builds, so a Go \<open>int\<close> does not overflow
  in it.
\<close>

lemma smallest_unused_le_card:
  assumes "smallest_unused n S" and "finite S"
  shows "n \<le> int (card S)"
proof -
  have "{0..<n} \<subseteq> S"
    using assms(1) by (auto simp: smallest_unused_def)
  then have "card {0..<n} \<le> card S"
    using assms(2) by (rule card_mono [rotated])
  moreover have "0 \<le> n" using assms(1) by (simp add: smallest_unused_def)
  ultimately show ?thesis by simp
qed

lemma smallest_unused_le_length:
  assumes "smallest_unused n (set (map f (filter P (builds_at h ps))))"
  shows "n \<le> int (length ps)"
proof -
  have "card (set (map f (filter P (builds_at h ps)))) \<le> length (map f (filter P (builds_at h ps)))"
    by (rule card_length)
  also have "\<dots> \<le> length (builds_at h ps)" by simp
  also have "\<dots> \<le> length ps" by (rule length_builds_at)
  finally show ?thesis
    using smallest_unused_le_card [OF assms] by simp
qed

lemma AssignID_fresh:
  assumes "h b = Some cand" and "\<forall>p\<in>set otherBuilds. h p \<noteq> None"
  shows "\<exists>g r q. AssignID h b otherBuilds = Inr (h(b \<mapsto> with_ids cand g r q)) \<and>
     smallest_unused g (set (map GlobalID (builds_at h otherBuilds))) \<and>
     smallest_unused r (set (map RunnerID (runner_scope cand (builds_at h otherBuilds)))) \<and>
     smallest_unused q (set (map ProjectRunnerID (project_scope cand (builds_at h otherBuilds))))"
proof -
  from used_ids_keys [OF assms, of fmempty fmempty fmempty]
  obtain gm rm qm where u: "used_ids h b otherBuilds (fmempty, fmempty, fmempty) = Inr (gm, rm, qm)"
    and g: "keys gm = set (map GlobalID (builds_at h otherBuilds))"
    and r: "keys rm = set (map RunnerID (runner_scope cand (builds_at h otherBuilds)))"
    and q: "keys qm = set (map ProjectRunnerID (project_scope cand (builds_at h otherBuilds)))"
    by (auto simp: keys_fmempty runner_scope_def project_scope_def)
  have "AssignID h b otherBuilds =
      Inr (h(b \<mapsto> with_ids cand (first_unused gm 0) (first_unused rm 0) (first_unused qm 0)))"
    by (simp add: AssignID_def u assms(1) with_ids_def)
  moreover have "smallest_unused (first_unused gm 0) (keys gm)"
    "smallest_unused (first_unused rm 0) (keys rm)" "smallest_unused (first_unused qm 0) (keys qm)"
    by (simp_all add: first_unused_smallest)
  ultimately show ?thesis
    unfolding g r q by blast
qed

lemma AssignID_Inr_D:
  assumes "AssignID h b otherBuilds = Inr h'"
  shows "\<exists>cand g r q. h b = Some cand \<and> h' = h(b \<mapsto> with_ids cand g r q)"
proof -
  from assms obtain gm rm qm cand where
    "h b = Some cand" and
    "h' = h(b \<mapsto> cand\<lparr>GlobalID := first_unused gm 0, RunnerID := first_unused rm 0,
       ProjectRunnerID := first_unused qm 0\<rparr>)"
    by (auto simp: AssignID_def split: sum.splits option.splits)
  then show ?thesis unfolding with_ids_def by blast
qed

text \<open>
  \<^bold>\<open>Claim C1.\<close> For a candidate build at \<open>b\<close> and a list of pointers to other builds,
  \<open>AssignID\<close> returns and leaves at \<open>b\<close> a build whose \<open>GlobalID\<close> is the smallest
  non-negative integer that no build of the list has as \<open>GlobalID\<close>, whose \<open>RunnerID\<close> is
  the smallest one not used as \<open>RunnerID\<close> by a build of the list with the candidate's
  runner short description, and whose \<open>ProjectRunnerID\<close> is the smallest one not used as
  \<open>ProjectRunnerID\<close> by a build of the list with the candidate's runner short description
  and \<open>ProjectID\<close>. None of the three exceeds the number of other builds.
\<close>

theorem AssignID_smallest_unused:
  assumes "h b = Some cand" and "\<forall>p\<in>set otherBuilds. h p \<noteq> None"
  shows "\<exists>cand'. AssignID h b otherBuilds = Inr (h(b \<mapsto> cand')) \<and>
     smallest_unused (GlobalID cand') (set (map GlobalID (builds_at h otherBuilds))) \<and>
     smallest_unused (RunnerID cand')
       (set (map RunnerID (runner_scope cand (builds_at h otherBuilds)))) \<and>
     smallest_unused (ProjectRunnerID cand')
       (set (map ProjectRunnerID (project_scope cand (builds_at h otherBuilds)))) \<and>
     GlobalID cand' \<le> int (length otherBuilds) \<and>
     RunnerID cand' \<le> int (length otherBuilds) \<and>
     ProjectRunnerID cand' \<le> int (length otherBuilds)"
proof -
  from AssignID_fresh [OF assms] obtain g r q where
    a: "AssignID h b otherBuilds = Inr (h(b \<mapsto> with_ids cand g r q))"
    and g: "smallest_unused g (set (map GlobalID (builds_at h otherBuilds)))"
    and r: "smallest_unused r (set (map RunnerID (runner_scope cand (builds_at h otherBuilds))))"
    and q: "smallest_unused q (set (map ProjectRunnerID (project_scope cand (builds_at h otherBuilds))))"
    by blast
  have "g \<le> int (length otherBuilds)"
    using smallest_unused_le_length [of g GlobalID "\<lambda>ob. True" h otherBuilds] g by simp
  moreover have "r \<le> int (length otherBuilds)"
    using r unfolding runner_scope_def by (rule smallest_unused_le_length)
  moreover have "q \<le> int (length otherBuilds)"
    using q unfolding project_scope_def by (rule smallest_unused_le_length)
  moreover have "GlobalID (with_ids cand g r q) = g" "RunnerID (with_ids cand g r q) = r"
    "ProjectRunnerID (with_ids cand g r q) = q"
    by (simp_all add: with_ids_def)
  ultimately show ?thesis using a g r q by metis
qed

text \<open>
  When the \<open>GlobalID\<close>s in use are 0 and 2, the new build gets 1; the \<open>RunnerID\<close>s 0 and 1
  are taken on its runner, and \<open>ProjectRunnerID\<close> 0 in its project.
\<close>

theorem AssignID_smallest_unused_witness:
  "\<exists>cand'. AssignID heap02 0 [1, 2] = Inr (heap02(0 \<mapsto> cand')) \<and>
     GlobalID cand' = 1 \<and> RunnerID cand' = 2 \<and> ProjectRunnerID cand' = 1"
proof -
  have valid: "\<forall>p\<in>set [1, 2]. heap02 p \<noteq> None"
    by (simp add: heap02_def)
  have cand: "heap02 0 = Some job7"
    by (simp add: heap02_def)
  have bs: "builds_at heap02 [1, 2] = [with_ids job7 0 0 0, with_ids job8 2 1 0]"
    by (simp add: heap02_def)
  from AssignID_smallest_unused [OF cand valid]
  obtain cand' where a: "AssignID heap02 0 [1, 2] = Inr (heap02(0 \<mapsto> cand'))"
    and g: "smallest_unused (GlobalID cand') {0, 2}"
    and r: "smallest_unused (RunnerID cand') {0, 1}"
    and q: "smallest_unused (ProjectRunnerID cand') {0}"
    unfolding bs
    by (auto simp: runner_scope_def project_scope_def same_runner_def same_project_def
        with_ids_def job7_def job8_def insert_commute)
  have "smallest_unused 1 {0, 2}" "smallest_unused 2 {0, 1}" "smallest_unused 1 {0}"
    unfolding smallest_unused_def by auto
  with g r q have "GlobalID cand' = 1" "RunnerID cand' = 2" "ProjectRunnerID cand' = 1"
    by (auto dest: smallest_unused_unique)
  with a show ?thesis by blast
qed

text \<open>The allocation of the example: 1, 2 and 1 are the first unused ids.\<close>

lemma AssignID_heap02: "AssignID heap02 0 [1, 2] = Inr (heap02(0 \<mapsto> with_ids job7 1 2 1))"
  by (simp add: AssignID_def heap02_def first_unused.simps index_def with_ids_def job7_def job8_def
      new_build_def runner_shell_def)

text \<open>
  \<^bold>\<open>Claim C10.\<close> When \<open>AssignID\<close> returns, the store is what it was at every address but
  the candidate's; so no build of the collection has changed when the candidate is not one
  of them. The candidate's record differs from what it was in the fields \<open>GlobalID\<close>,
  \<open>RunnerID\<close> and \<open>ProjectRunnerID\<close> at most.
\<close>

theorem AssignID_frame:
  assumes "AssignID h b otherBuilds = Inr h'"
  shows "(\<forall>p. p \<noteq> b \<longrightarrow> h' p = h p) \<and>
     (b \<notin> set otherBuilds \<longrightarrow> (\<forall>p\<in>set otherBuilds. h' p = h p)) \<and>
     (\<exists>cand g r q. h b = Some cand \<and>
        h' b = Some (cand\<lparr>GlobalID := g, RunnerID := r, ProjectRunnerID := q\<rparr>))"
proof -
  from AssignID_Inr_D [OF assms] obtain cand g r q where c: "h b = Some cand"
    and h': "h' = h(b \<mapsto> cand\<lparr>GlobalID := g, RunnerID := r, ProjectRunnerID := q\<rparr>)"
    unfolding with_ids_def by blast
  from h' have "\<forall>p. p \<noteq> b \<longrightarrow> h' p = h p" by simp
  moreover from h' have "b \<notin> set otherBuilds \<longrightarrow> (\<forall>p\<in>set otherBuilds. h' p = h p)" by auto
  moreover from h' have "h' b = Some (cand\<lparr>GlobalID := g, RunnerID := r, ProjectRunnerID := q\<rparr>)"
    by simp
  ultimately show ?thesis using c by blast
qed

theorem AssignID_frame_witness:
  "\<exists>h'. AssignID heap02 0 [1, 2] = Inr h' \<and> h' 1 = heap02 1 \<and> h' 2 = heap02 2 \<and>
     h' 0 = Some (job7\<lparr>GlobalID := 1, RunnerID := 2, ProjectRunnerID := 1\<rparr>)"
proof -
  from AssignID_frame [OF AssignID_heap02]
  have "(heap02(0 \<mapsto> with_ids job7 1 2 1)) 1 = heap02 1"
    and "(heap02(0 \<mapsto> with_ids job7 1 2 1)) 2 = heap02 2"
    by simp_all
  then show ?thesis
    using AssignID_heap02 by (simp add: with_ids_def)
qed

section \<open>Uniqueness of the identities among active builds\<close>

lemma no_clash_sym: "no_clash x y \<Longrightarrow> no_clash y x"
  by (auto simp: no_clash_def same_runner_def same_project_def)

lemma fresh_no_clash:
  assumes g: "smallest_unused (GlobalID c) (set (map GlobalID obs))"
    and r: "smallest_unused (RunnerID c) (set (map RunnerID (runner_scope cand obs)))"
    and q: "smallest_unused (ProjectRunnerID c) (set (map ProjectRunnerID (project_scope cand obs)))"
    and same: "Runner c = Runner cand" "ProjectID c = ProjectID cand"
    and ob: "ob \<in> set obs"
  shows "no_clash c ob"
proof -
  have "GlobalID c \<noteq> GlobalID ob"
    using g ob by (auto simp: smallest_unused_def)
  moreover have "RunnerID c \<noteq> RunnerID ob" if "same_runner c ob"
  proof -
    from that same have "ob \<in> set (runner_scope cand obs)"
      using ob by (simp add: runner_scope_def same_runner_def)
    with r show ?thesis by (auto simp: smallest_unused_def)
  qed
  moreover have "ProjectRunnerID c \<noteq> ProjectRunnerID ob" if "same_runner c ob" "same_project c ob"
  proof -
    from that same have "ob \<in> set (project_scope cand obs)"
      using ob by (simp add: project_scope_def same_runner_def same_project_def)
    with q show ?thesis by (auto simp: smallest_unused_def)
  qed
  ultimately show ?thesis by (simp add: no_clash_def)
qed

lemma registry_inv_allocate:
  assumes inv: "registry_inv h active" and new: "b \<notin> set active"
    and a: "AssignID h b active = Inr h'"
  shows "registry_inv h' (b # active)"
proof -
  from AssignID_Inr_D [OF a] obtain cand where cand: "h b = Some cand" by blast
  from inv have valid: "\<forall>p\<in>set active. h p \<noteq> None" by (simp add: registry_inv_def)
  from AssignID_fresh [OF cand valid] a obtain g r q where
    h': "h' = h(b \<mapsto> with_ids cand g r q)"
    and g: "smallest_unused g (set (map GlobalID (builds_at h active)))"
    and r: "smallest_unused r (set (map RunnerID (runner_scope cand (builds_at h active))))"
    and q: "smallest_unused q (set (map ProjectRunnerID (project_scope cand (builds_at h active))))"
    by auto
  let ?c = "with_ids cand g r q"
  have old: "h' p = h p" if "p \<in> set active" for p
    using that new h' by auto
  have fresh: "no_clash ?c y" if "p \<in> set active" "h p = Some y" for p y
  proof (rule fresh_no_clash [where cand = cand and obs = "builds_at h active"])
    show "y \<in> set (builds_at h active)" using that by (auto simp: set_builds_at)
  qed (insert g r q, simp_all add: with_ids_def)
  have "distinct (b # active)"
    using inv new by (simp add: registry_inv_def)
  moreover have "\<forall>p\<in>set (b # active). h' p \<noteq> None"
    using valid old h' by auto
  moreover have "no_clash x y"
    if "p \<in> set (b # active)" "q \<in> set (b # active)" "p \<noteq> q" "h' p = Some x" "h' q = Some y"
    for p q x y
  proof (cases "p = b")
    case True
    with that have "q \<in> set active" "x = ?c" "h q = Some y" using h' old by auto
    with fresh show ?thesis by blast
  next
    case False
    with that have p: "p \<in> set active" "h p = Some x" using old by auto
    show ?thesis
    proof (cases "q = b")
      case True
      with that h' have "y = ?c" by simp
      with fresh p have "no_clash y x" by blast
      then show ?thesis by (rule no_clash_sym)
    next
      case False
      with that have "q \<in> set active" "h q = Some y" using old by auto
      with p inv that(3) show ?thesis unfolding registry_inv_def by blast
    qed
  qed
  ultimately show ?thesis unfolding registry_inv_def by blast
qed

lemma registry_inv: "registry h active \<Longrightarrow> registry_inv h active"
proof (induction rule: registry.induct)
  case (start h)
  show ?case by (simp add: registry_inv_def)
next
  case (create h active p v)
  then show ?case unfolding registry_inv_def by (auto simp: fun_upd_def)
next
  case (allocate h active b h')
  then show ?case by (simp add: registry_inv_allocate)
next
  case (progress h active p x y)
  have same: "no_clash a b \<longleftrightarrow> no_clash a' b'" if "same_identity a a'" "same_identity b b'" for a a' b b'
    using that by (simp add: no_clash_def same_identity_def same_runner_def same_project_def)
  have refl: "same_identity a a" for a
    by (simp add: same_identity_def)
  from progress.IH have d: "distinct active" and v: "\<forall>q\<in>set active. h q \<noteq> None"
    and u: "\<And>q r a b. q \<in> set active \<Longrightarrow> r \<in> set active \<Longrightarrow> q \<noteq> r \<Longrightarrow>
              h q = Some a \<Longrightarrow> h r = Some b \<Longrightarrow> no_clash a b"
    unfolding registry_inv_def by blast+
  have "no_clash a b"
    if mem: "q \<in> set active" "r \<in> set active" "q \<noteq> r"
      and qa: "(h(p \<mapsto> y)) q = Some a" and rb: "(h(p \<mapsto> y)) r = Some b"
    for q r a b
  proof -
    have "\<exists>a0. h q = Some a0 \<and> same_identity a0 a"
      using qa progress.hyps(2,3) refl by (cases "q = p") auto
    then obtain a0 where a0: "h q = Some a0" "same_identity a0 a" by blast
    have "\<exists>b0. h r = Some b0 \<and> same_identity b0 b"
      using rb progress.hyps(2,3) refl by (cases "r = p") auto
    then obtain b0 where b0: "h r = Some b0" "same_identity b0 b" by blast
    from u [OF mem a0(1) b0(1)] same [OF a0(2) b0(2)] show ?thesis by simp
  qed
  with d v show ?case unfolding registry_inv_def by auto
next
  case (release h xs p ys)
  then show ?case unfolding registry_inv_def by auto
qed

text \<open>The allocations of the example history.\<close>

lemma AssignID_pool: "AssignID pool 10 [] = Inr heap_a"
  by (simp add: AssignID_def pool_def heap_a_def first_unused.simps index_def with_ids_def)

lemma AssignID_heap_a: "AssignID heap_a 11 [10] = Inr heap_b"
  by (simp add: AssignID_def pool_def heap_a_def heap_b_def first_unused.simps index_def with_ids_def
      job7_def new_build_def runner_shell_def)

lemma AssignID_heap_b: "AssignID heap_b 12 [11, 10] = Inr heap_c"
  by (simp add: AssignID_def pool_def heap_a_def heap_b_def heap_c_def first_unused.simps index_def
      with_ids_def job7_def new_build_def runner_shell_def)

lemma AssignID_heap_c: "AssignID heap_c 13 [12, 10] = Inr heap_d"
  by (simp add: AssignID_def pool_def heap_a_def heap_b_def heap_c_def heap_d_def first_unused.simps
      index_def with_ids_def job7_def job8_def new_build_def runner_shell_def)

lemma registry_example: "registry heap_d [13, 12, 10]"
proof -
  have "registry pool []" by (rule registry.start)
  then have "registry heap_a [10]"
    by (rule registry.allocate) (simp_all add: AssignID_pool)
  then have "registry heap_b [11, 10]"
    by (rule registry.allocate) (simp_all add: AssignID_heap_a)
  then have "registry heap_c ([12] @ 11 # [10])"
    using registry.allocate [of heap_b "[11, 10]" 12 heap_c] by (simp add: AssignID_heap_b)
  then have "registry heap_c ([12] @ [10])"
    by (rule registry.release)
  then show ?thesis
    using registry.allocate [of heap_c "[12, 10]" 13 heap_d] by (simp add: AssignID_heap_c)
qed

text \<open>
  \<^bold>\<open>Claim C2.\<close> In every history in which each build got its three identities from
  \<open>AssignID\<close>, run on the builds active when it was allocated, the active builds are
  pairwise different records, no two of them have the same \<open>GlobalID\<close>, no two with
  the same runner short description have the same \<open>RunnerID\<close>, and no two with the same
  runner short description and \<open>ProjectID\<close> have the same \<open>ProjectRunnerID\<close>.
\<close>

theorem registry_unique_ids: "registry h active \<Longrightarrow> unique_ids h active"
proof -
  assume "registry h active"
  then have "registry_inv h active" by (rule registry_inv)
  then show ?thesis
    unfolding registry_inv_def unique_ids_def by (auto split: option.splits)
qed

text \<open>
  In the example history the builds at 13, 12 and 10 are active in the end; the build at
  13 took the \<open>GlobalID\<close> and the \<open>RunnerID\<close> that the build at 11 gave back.
\<close>

theorem registry_unique_ids_witness:
  "registry heap_d [13, 12, 10] \<and> unique_ids heap_d [13, 12, 10] \<and>
   map GlobalID (builds_at heap_d [13, 12, 10]) = [1, 2, 0] \<and>
   map RunnerID (builds_at heap_d [13, 12, 10]) = [1, 2, 0] \<and>
   map ProjectRunnerID (builds_at heap_d [13, 12, 10]) = [0, 2, 0]"
  using registry_unique_ids [OF registry_example] registry_example
  by (simp add: heap_d_def heap_c_def heap_b_def heap_a_def pool_def with_ids_def)

section \<open>Properties of \<open>StartBuild\<close> and \<open>FinishBuild\<close>\<close>

lemma FinishBuild_eq:
  "FinishBuild Sprintf now buildState buildMessage args b =
     b\<lparr>BuildState := buildState, BuildMessage := CHR 0x0A # Sprintf buildMessage args,
       BuildFinished := now, BuildDuration := Time_Sub now (BuildStarted b)\<rparr>"
  by (simp add: FinishBuild_def Let_def)

lemma StartBuild_eq:
  "StartBuild now buildDir b = b\<lparr>BuildStarted := now, BuildState := Pending, BuildDir := buildDir\<rparr>"
  by (simp add: StartBuild_def Let_def)

text \<open>\<open>Time.Sub\<close> is the difference of the two readings it compares, limited to a \<open>Duration\<close>.\<close>

lemma wrap64_in_range: "- (2 ^ 63) \<le> x \<Longrightarrow> x < 2 ^ 63 \<Longrightarrow> wrap64 x = x"
  by (simp add: wrap64_def)

lemma wrap64_above: "2 ^ 63 \<le> x \<Longrightarrow> x < 2 ^ 64 \<Longrightarrow> wrap64 x = x - 2 ^ 64"
proof -
  assume a: "2 ^ 63 \<le> x" "x < 2 ^ 64"
  have "(x + 2 ^ 63) mod 2 ^ 64 = (x + 2 ^ 63 - 2 ^ 64) mod 2 ^ 64"
    by (metis minus_mod_self2)
  also have "\<dots> = x + 2 ^ 63 - 2 ^ 64"
    using a by (intro mod_pos_pos_trivial) simp_all
  finally show ?thesis by (simp add: wrap64_def)
qed

lemma wrap64_below: "- (2 ^ 64) < x \<Longrightarrow> x < - (2 ^ 63) \<Longrightarrow> wrap64 x = x + 2 ^ 64"
proof -
  assume a: "- (2 ^ 64) < x" "x < - (2 ^ 63)"
  have "(x + 2 ^ 63) mod 2 ^ 64 = (x + 2 ^ 63 + 2 ^ 64) mod 2 ^ 64"
    by (simp only: mod_add_self2)
  also have "\<dots> = x + 2 ^ 63 + 2 ^ 64"
    using a by (intro mod_pos_pos_trivial) simp_all
  finally show ?thesis by (simp add: wrap64_def)
qed

lemma wrap64_range: "- (2 ^ 63) \<le> wrap64 x \<and> wrap64 x < 2 ^ 63"
proof -
  have "0 \<le> (x + 2 ^ 63) mod 2 ^ 64" "(x + 2 ^ 63) mod (2 ^ 64 :: int) < 2 ^ 64"
    by simp_all
  then show ?thesis by (simp add: wrap64_def)
qed

lemma sint_minus_wrap64: "sint (t - u :: 64 word) = wrap64 (sint t - sint u)"
  by (simp add: sint_word_ariths signed_take_bit_eq_take_bit_shift take_bit_eq_mod wrap64_def)

lemma subMono_saturated: "subMono t u = saturated (sint t - sint u)"
proof -
  have rt: "- (2 ^ 63) \<le> sint t" "sint t < 2 ^ 63" and ru: "- (2 ^ 63) \<le> sint u" "sint u < 2 ^ 63"
    using sint_ge [of t] sint_lt [of t] sint_ge [of u] sint_lt [of u] by simp_all
  let ?x = "sint t - sint u"
  consider "- (2 ^ 63) \<le> ?x \<and> ?x < 2 ^ 63" | "2 ^ 63 \<le> ?x" | "?x < - (2 ^ 63)" by linarith
  then show ?thesis
  proof cases
    case 1
    then have "wrap64 ?x = ?x" by (simp add: wrap64_in_range)
    with 1 show ?thesis
      by (auto simp: subMono_def sint_minus_wrap64 saturated_def minDuration_def maxDuration_def Let_def)
  next
    case 2
    with rt ru have "wrap64 ?x = ?x - 2 ^ 64" by (intro wrap64_above) simp_all
    with 2 rt ru show ?thesis
      by (auto simp: subMono_def sint_minus_wrap64 saturated_def minDuration_def maxDuration_def Let_def)
  next
    case 3
    with rt ru have "wrap64 ?x = ?x + 2 ^ 64" by (intro wrap64_below) simp_all
    with 3 rt ru show ?thesis
      by (auto simp: subMono_def sint_minus_wrap64 saturated_def minDuration_def maxDuration_def Let_def)
  qed
qed

lemma wall_difference_saturated:
  "(let d = wrap64 (t - u)
    in if u + d = t then d else if t < u then minDuration else maxDuration) = saturated (t - u)"
proof -
  consider "- (2 ^ 63) \<le> t - u \<and> t - u < 2 ^ 63" | "2 ^ 63 \<le> t - u" | "t - u < - (2 ^ 63)" by linarith
  then show ?thesis
  proof cases
    case 1
    then have "wrap64 (t - u) = t - u" by (simp add: wrap64_in_range)
    with 1 show ?thesis by (simp add: saturated_def minDuration_def maxDuration_def)
  next
    case 2
    with wrap64_range [of "t - u"] have "u + wrap64 (t - u) \<noteq> t" by linarith
    with 2 show ?thesis by (simp add: saturated_def minDuration_def maxDuration_def Let_def)
  next
    case 3
    with wrap64_range [of "t - u"] have "u + wrap64 (t - u) \<noteq> t" by linarith
    with 3 show ?thesis by (simp add: saturated_def minDuration_def maxDuration_def Let_def)
  qed
qed

lemma Time_Sub_saturated:
  "Time_Sub t u =
     saturated (case (mono_ns t, mono_ns u) of
                  (Some tm, Some um) \<Rightarrow> sint tm - sint um
                | _ \<Rightarrow> wall_ns t - wall_ns u)"
  by (cases "mono_ns t"; cases "mono_ns u")
    (simp_all only: Time_Sub_def option.case prod.case wall_difference_saturated subMono_saturated)

lemma Sprintf_examples_boom: "Sprintf_examples ''boom %d'' [GoInt 7] = ''boom 7''"
  by (simp add: Sprintf_examples_def Sprintf_known_def)

lemma Sprintf_examples_not_found:
  "Sprintf_examples ''Executor not found: %v'' [GoString ''docker-ssh''] = ''Executor not found: docker-ssh''"
  by (simp add: Sprintf_examples_def Sprintf_known_def)

text \<open>
  \<^bold>\<open>Claim C3\<close> fails as it is stated, in the duration. A build that was never started
  has the zero \<open>Time\<close> as \<open>BuildStarted\<close>, and \<open>FinishBuild\<close> gives it the largest
  \<open>Duration\<close>, not the nanoseconds between the two instants. And for a build started
  and finished at two readings of \<open>time.Now()\<close>, \<open>BuildDuration\<close> is what the monotonic
  clock measured (3000), not the difference of the two wall-clock instants (3007).
\<close>

theorem FinishBuild_duration_not_difference:
  "BuildStarted new_build = zero_Time \<and>
   BuildDuration (FinishBuild Sprintf_examples t_finish Failed ''boom %d'' [GoInt 7] new_build) =
     9223372036854775807 \<and>
   wall_ns (BuildFinished (FinishBuild Sprintf_examples t_finish Failed ''boom %d'' [GoInt 7] new_build)) -
   wall_ns (BuildStarted (FinishBuild Sprintf_examples t_finish Failed ''boom %d'' [GoInt 7] new_build)) =
     63929260800000003007 \<and>
   BuildDuration (FinishBuild Sprintf_examples t_finish Failed ''boom %d'' [GoInt 7]
      (StartBuild t_start ''/builds/x'' new_build)) = 3000 \<and>
   wall_ns (BuildFinished (FinishBuild Sprintf_examples t_finish Failed ''boom %d'' [GoInt 7]
      (StartBuild t_start ''/builds/x'' new_build))) -
   wall_ns (BuildStarted (FinishBuild Sprintf_examples t_finish Failed ''boom %d'' [GoInt 7]
      (StartBuild t_start ''/builds/x'' new_build))) = 3007"
  by (simp add: FinishBuild_eq StartBuild_eq Time_Sub_saturated saturated_def minDuration_def
      maxDuration_def new_build_def zero_Time_def t_start_def t_finish_def instant_def)

text \<open>
  \<^bold>\<open>Claim C3, amended.\<close> \<open>FinishBuild\<close> sets \<open>BuildState\<close> to the state given,
  \<open>BuildMessage\<close> to a newline followed by the formatted text, \<open>BuildFinished\<close> to the
  current time, and \<open>BuildDuration\<close> to \<open>BuildFinished.Sub(BuildStarted)\<close>: the difference
  of the monotonic readings of the two instants when both carry one, the difference of
  their wall-clock instants otherwise, and in either case the largest or the smallest
  \<open>Duration\<close> when the difference does not fit. With a \<open>Sprintf\<close> that formats
  \<open>"boom %d"\<close> and 7 as \<open>"boom 7"\<close>, the message of \<open>FinishBuild(Failed, "boom %d", 7)\<close>
  is \<open>"\nboom 7"\<close>.
\<close>

theorem FinishBuild_sets_fields:
  assumes "b' = FinishBuild Sprintf now buildState buildMessage args b"
  shows "BuildState b' = buildState \<and>
     BuildMessage b' = CHR 0x0A # Sprintf buildMessage args \<and>
     BuildFinished b' = now \<and>
     BuildStarted b' = BuildStarted b \<and>
     BuildDuration b' =
       saturated (case (mono_ns (BuildFinished b'), mono_ns (BuildStarted b')) of
                    (Some tm, Some um) \<Rightarrow> sint tm - sint um
                  | _ \<Rightarrow> wall_ns (BuildFinished b') - wall_ns (BuildStarted b')) \<and>
     minDuration \<le> BuildDuration b' \<and> BuildDuration b' \<le> maxDuration \<and>
     (Sprintf ''boom %d'' [GoInt 7] = ''boom 7'' \<and> buildMessage = ''boom %d'' \<and> args = [GoInt 7] \<longrightarrow>
        BuildMessage b' = CHR 0x0A # ''boom 7'')"
proof -
  have bounds: "minDuration \<le> saturated d \<and> saturated d \<le> maxDuration" for d
    by (simp add: saturated_def minDuration_def maxDuration_def)
  have st: "BuildState b' = buildState"
    and msg: "BuildMessage b' = CHR 0x0A # Sprintf buildMessage args"
    and fin: "BuildFinished b' = now"
    and started: "BuildStarted b' = BuildStarted b"
    and dur: "BuildDuration b' = Time_Sub now (BuildStarted b)"
    by (simp_all add: assms FinishBuild_eq)
  show ?thesis
    unfolding st msg fin started dur Time_Sub_saturated
    using bounds by simp
qed

text \<open>
  A build started at the first reading and finished with \<open>"boom %d"\<close> and 7 at the
  second one: its duration is the 3000 nanoseconds of the monotonic clock.
\<close>

theorem FinishBuild_sets_fields_witness:
  "BuildState (FinishBuild Sprintf_examples t_finish Failed ''boom %d'' [GoInt 7]
      (StartBuild t_start ''/builds/x'' new_build)) = Failed \<and>
   BuildMessage (FinishBuild Sprintf_examples t_finish Failed ''boom %d'' [GoInt 7]
      (StartBuild t_start ''/builds/x'' new_build)) = CHR 0x0A # ''boom 7'' \<and>
   BuildFinished (FinishBuild Sprintf_examples t_finish Failed ''boom %d'' [GoInt 7]
      (StartBuild t_start ''/builds/x'' new_build)) = t_finish \<and>
   BuildDuration (FinishBuild Sprintf_examples t_finish Failed ''boom %d'' [GoInt 7]
      (StartBuild t_start ''/builds/x'' new_build)) = 3000"
proof -
  let ?b = "StartBuild t_start ''/builds/x'' new_build"
  let ?b' = "FinishBuild Sprintf_examples t_finish Failed ''boom %d'' [GoInt 7] ?b"
  have started: "BuildStarted ?b = t_start"
    by (simp add: StartBuild_eq)
  note fields = FinishBuild_sets_fields [of ?b' Sprintf_examples t_finish Failed "''boom %d''"
      "[GoInt 7]" ?b, OF refl]
  from fields have "BuildState ?b' = Failed" by blast
  moreover from fields Sprintf_examples_boom have "BuildMessage ?b' = CHR 0x0A # ''boom 7''" by blast
  moreover from fields have fin: "BuildFinished ?b' = t_finish" by blast
  moreover from fields have st: "BuildStarted ?b' = BuildStarted ?b" by blast
  moreover from fields have "BuildDuration ?b' =
       saturated (case (mono_ns (BuildFinished ?b'), mono_ns (BuildStarted ?b')) of
                    (Some tm, Some um) \<Rightarrow> sint tm - sint um
                  | _ \<Rightarrow> wall_ns (BuildFinished ?b') - wall_ns (BuildStarted ?b'))"
    by blast
  then have "BuildDuration ?b' = 3000"
    unfolding fin st started
    by (simp add: t_start_def t_finish_def instant_def saturated_def minDuration_def maxDuration_def)
  ultimately show ?thesis by simp
qed

lemma apply_ops_snoc:
  "apply_ops Sprintf b (ops @ [op]) = apply_op Sprintf (apply_ops Sprintf b ops) op"
  by (simp add: apply_ops_def)

text \<open>
  \<^bold>\<open>Claim C8\<close> fails as it is stated: a build that was started and finished with
  \<open>Success\<close> is \<open>Pending\<close> again after another \<open>StartBuild\<close>.
\<close>

theorem terminal_state_not_absorbing:
  "BuildState (apply_ops Sprintf_examples new_build
      [Op_StartBuild t_start ''/builds/x'', Op_FinishBuild t_finish Success ''done'' []]) = Success \<and>
   BuildState (apply_ops Sprintf_examples new_build
      [Op_StartBuild t_start ''/builds/x'', Op_FinishBuild t_finish Success ''done'' [],
       Op_StartBuild t_restart ''/builds/x'']) = Pending \<and>
   Pending \<noteq> Success"
  by (simp add: apply_ops_def FinishBuild_eq StartBuild_eq Pending_def Success_def)

text \<open>
  \<^bold>\<open>Claim C8, amended.\<close> After any sequence of \<open>StartBuild\<close> and \<open>FinishBuild\<close>
  operations \<open>BuildState\<close> is what the last operation wrote, whatever it was before:
  \<open>Pending\<close> after \<open>StartBuild\<close>, the state passed after \<open>FinishBuild\<close>.
\<close>

theorem BuildState_after_last_op:
  "BuildState (apply_ops Sprintf b (ops @ [op])) =
     (case op of Op_StartBuild now buildDir \<Rightarrow> Pending
      | Op_FinishBuild now buildState buildMessage args \<Rightarrow> buildState)"
  by (cases op) (simp_all add: apply_ops_snoc FinishBuild_eq StartBuild_eq)

theorem BuildState_after_last_op_witness:
  "BuildState (apply_ops Sprintf_examples new_build
      ([Op_StartBuild t_start ''/builds/x''] @ [Op_FinishBuild t_finish Failed ''boom %d'' [GoInt 7]])) = Failed \<and>
   BuildState (apply_ops Sprintf_examples new_build
      ([Op_FinishBuild t_finish Failed ''boom %d'' [GoInt 7]] @ [Op_StartBuild t_restart ''/builds/x''])) = Pending"
  using BuildState_after_last_op [of Sprintf_examples new_build "[Op_StartBuild t_start ''/builds/x'']"
      "Op_FinishBuild t_finish Failed ''boom %d'' [GoInt 7]"]
    BuildState_after_last_op [of Sprintf_examples new_build
      "[Op_FinishBuild t_finish Failed ''boom %d'' [GoInt 7]]" "Op_StartBuild t_restart ''/builds/x''"]
  by simp

section \<open>Properties of the status reporter\<close>

lemma UpdateBuild_eq:
  "UpdateBuild c i st tr w =
     (responses w 0, \<lparr>responses = (\<lambda>k. responses w (Suc k)),
                       events = events w @ [Call_UpdateBuild c i st tr]\<rparr>)"
  by (simp add: UpdateBuild_def record_call_def)

lemma time_Sleep_eq: "time_Sleep d w = \<lparr>responses = responses w, events = events w @ [Call_Sleep d]\<rparr>"
  by (simp add: time_Sleep_def record_call_def)

lemma retried_0: "retried 0 r s = [r]"
  by (simp add: retried_def)

lemma retried_Suc: "retried (Suc n) r s = r # s # retried n r s"
  by (simp add: retried_def)

lemma count_retried_sleep: "r \<noteq> s \<Longrightarrow> count_list (retried n r s) s = n"
  by (induction n) (simp_all add: retried_0 retried_Suc)

lemma count_retried_report: "r \<noteq> s \<Longrightarrow> count_list (retried n r s) r = Suc n"
  by (induction n) (simp_all add: retried_0 retried_Suc)

text \<open>The loop returns after the first answer that is not \<open>UpdateFailed\<close>.\<close>

lemma report_until_accepted_returns:
  assumes "\<forall>k<n. responses w k = UpdateFailed" and "responses w n \<noteq> UpdateFailed"
  shows "report_until_accepted I c i st tr w =
     Some \<lparr>responses = (\<lambda>k. responses w (Suc n + k)),
           events = events w @ retried n (Call_UpdateBuild c i st tr) (Call_Sleep (I * Second))\<rparr>"
  using assms
proof (induction n arbitrary: w)
  case 0
  then show ?case
    by (subst report_until_accepted.simps) (simp add: UpdateBuild_eq retried_0)
next
  case (Suc n)
  let ?w = "time_Sleep (I * Second) (snd (UpdateBuild c i st tr w))"
  from Suc.prems have first: "responses w 0 = UpdateFailed" by simp
  have resp: "responses ?w = (\<lambda>k. responses w (Suc k))"
    and ev: "events ?w = events w @ [Call_UpdateBuild c i st tr, Call_Sleep (I * Second)]"
    by (simp_all add: UpdateBuild_eq time_Sleep_eq)
  have "\<forall>k<n. responses ?w k = UpdateFailed" and "responses ?w n \<noteq> UpdateFailed"
    using Suc.prems by (simp_all add: resp)
  from Suc.IH [OF this]
  have "report_until_accepted I c i st tr ?w =
     Some \<lparr>responses = (\<lambda>k. responses ?w (Suc n + k)),
           events = events ?w @ retried n (Call_UpdateBuild c i st tr) (Call_Sleep (I * Second))\<rparr>" .
  moreover have "report_until_accepted I c i st tr w = report_until_accepted I c i st tr ?w"
    by (subst report_until_accepted.simps) (simp add: UpdateBuild_eq first)
  ultimately show ?case
    by (simp add: resp ev retried_Suc)
qed

text \<open>If the loop returns, some answer was not \<open>UpdateFailed\<close>.\<close>

lemma report_until_accepted_Some_D:
  assumes "report_until_accepted I c i st tr w = Some w'"
  shows "\<exists>k. responses w k \<noteq> UpdateFailed"
proof (rule report_until_accepted.raw_induct
    [where P = "\<lambda>I c i st tr w w'. \<exists>k. responses w k \<noteq> UpdateFailed", OF _ assms])
  fix rec I c i st tr w w'
  assume IH: "\<And>I c i st tr w w'. rec I c i st tr w = Some w' \<Longrightarrow> \<exists>k. responses w k \<noteq> UpdateFailed"
    and step: "(case UpdateBuild c i st tr w of
        (r, w') \<Rightarrow> if r \<noteq> UpdateFailed then Some w'
                   else rec I c i st tr (time_Sleep (I * Second) w')) = Some w'"
  show "\<exists>k. responses w k \<noteq> UpdateFailed"
  proof (cases "responses w 0 = UpdateFailed")
    case False
    then show ?thesis by blast
  next
    case True
    with step have "rec I c i st tr (time_Sleep (I * Second) (snd (UpdateBuild c i st tr w))) = Some w'"
      by (simp add: UpdateBuild_eq)
    from IH [OF this] obtain k where
      "responses (time_Sleep (I * Second) (snd (UpdateBuild c i st tr w))) k \<noteq> UpdateFailed" ..
    then have "responses w (Suc k) \<noteq> UpdateFailed"
      by (simp add: UpdateBuild_eq time_Sleep_eq)
    then show ?thesis ..
  qed
qed

lemma report_until_accepted_diverges:
  "(\<And>k. responses w k = UpdateFailed) \<Longrightarrow> report_until_accepted I c i st tr w = None"
  using report_until_accepted_Some_D [of I c i st tr w]
  by (cases "report_until_accepted I c i st tr w") auto

lemma SendBuildLog_returns:
  assumes "\<forall>k<n. responses w k = UpdateFailed" and "responses w n \<noteq> UpdateFailed"
  shows "SendBuildLog I b w =
     Some \<lparr>responses = (\<lambda>k. responses w (Suc n + k)),
           events = events w @
             retried n (Call_UpdateBuild (Runner b) (ID b) (BuildState b) (buildTrace_of b))
                       (Call_Sleep (I * Second))\<rparr>"
  unfolding SendBuildLog_def by (rule report_until_accepted_returns [OF assms])

lemma SendBuildLog_diverges:
  "(\<And>k. responses w k = UpdateFailed) \<Longrightarrow> SendBuildLog I b w = None"
  unfolding SendBuildLog_def by (rule report_until_accepted_diverges)

lemma retry3_answers:
  "\<forall>k<3. responses world_retry3 k = UpdateFailed" "responses world_retry3 3 \<noteq> UpdateFailed"
  by (simp_all add: world_retry3_def answers_def less_Suc_eq numeral_3_eq_3)

text \<open>
  \<^bold>\<open>Claim C7.\<close> The trace of \<open>SendBuildLog\<close> is the content of the log buffer, followed
  by the build's message when that is not empty. When the collaborator answers
  \<open>UpdateFailed\<close> to the first \<open>n\<close> reports and something else to the next one,
  \<open>SendBuildLog\<close> returns, and what it has done is: report, sleep for the retry interval,
  \<open>n\<close> times over, and report once more; so it has slept \<open>n\<close> times and reported
  \<open>n + 1\<close> times.
\<close>

theorem SendBuildLog_retries:
  assumes "\<forall>k<n. responses w k = UpdateFailed" and "responses w n \<noteq> UpdateFailed"
  shows "\<exists>w'. SendBuildLog UpdateRetryInterval b w = Some w' \<and>
     events w' = events w @
       retried n (Call_UpdateBuild (Runner b) (ID b) (BuildState b) (buildTrace_of b))
                 (Call_Sleep (UpdateRetryInterval * Second)) \<and>
     count_list (drop (length (events w)) (events w')) (Call_Sleep (UpdateRetryInterval * Second)) = n \<and>
     count_list (drop (length (events w)) (events w'))
       (Call_UpdateBuild (Runner b) (ID b) (BuildState b) (buildTrace_of b)) = n + 1 \<and>
     buildTrace_of b = (if BuildMessage b = [] then BuildLog b else BuildLog b @ BuildMessage b)"
  unfolding SendBuildLog_returns [OF assms]
  by (simp add: count_retried_sleep count_retried_report buildTrace_of_def)

text \<open>Three rejected reports and an accepted one: seven calls, three of them sleeps.\<close>

theorem SendBuildLog_retries_witness:
  "\<exists>w'. SendBuildLog 3 failed_job world_retry3 = Some w' \<and>
     events w' =
       [Call_UpdateBuild runner_shell 42 Failed (''$ make'' @ CHR 0x0A # ''boom 7''),
        Call_Sleep 3000000000,
        Call_UpdateBuild runner_shell 42 Failed (''$ make'' @ CHR 0x0A # ''boom 7''),
        Call_Sleep 3000000000,
        Call_UpdateBuild runner_shell 42 Failed (''$ make'' @ CHR 0x0A # ''boom 7''),
        Call_Sleep 3000000000,
        Call_UpdateBuild runner_shell 42 Failed (''$ make'' @ CHR 0x0A # ''boom 7'')]"
proof -
  from SendBuildLog_retries [OF retry3_answers, of 3 failed_job]
  obtain w' where "SendBuildLog 3 failed_job world_retry3 = Some w'"
    and "events w' = events world_retry3 @
       retried 3 (Call_UpdateBuild (Runner failed_job) (ID failed_job) (BuildState failed_job)
                    (buildTrace_of failed_job))
                 (Call_Sleep (3 * Second))"
    and "buildTrace_of failed_job =
       (if BuildMessage failed_job = [] then BuildLog failed_job
        else BuildLog failed_job @ BuildMessage failed_job)"
    by blast
  then show ?thesis
    by (simp add: world_retry3_def failed_job_def new_build_def BuildLog_def Second_def
        retried_Suc retried_0 numeral_3_eq_3)
qed

section \<open>Properties of the orchestrator\<close>

lemma executor_calls_append: "executor_calls (xs @ ys) = executor_calls xs @ executor_calls ys"
  by (simp add: executor_calls_def)

lemma executor_calls_retried:
  "executor_calls (retried n (Call_UpdateBuild c i st tr) (Call_Sleep d)) = []"
  by (induction n) (simp_all add: retried_0 retried_Suc executor_calls_def)

text \<open>The path of \<open>Run\<close> for an executor name that is not registered.\<close>

lemma Run_not_found:
  assumes "GetExecutor (Executor (Runner b)) = None"
  shows "Run Sprintf GetExecutor I now b s w =
     (case SendBuildLog I (FinishBuild Sprintf now Failed ''Executor not found: %v''
                              [GoString (Executor (Runner b))] b) w of
        None \<Rightarrow> None
      | Some w' \<Rightarrow> Some (Some (errors_New ''executor not found''),
           FinishBuild Sprintf now Failed ''Executor not found: %v'' [GoString (Executor (Runner b))] b,
           s, w'))"
  by (simp add: Run_def assms Let_def)

text \<open>The path of \<open>Run\<close> for a registered executor, by the results of its stages.\<close>

lemma Run_found:
  assumes "GetExecutor (Executor (Runner b)) = Some ex"
    and "Prepare ex (Runner b) (b, s) = (e1, bs1)"
    and "Start ex bs1 = (e2, bs2)"
    and "Wait ex bs2 = (e3, bs3)"
  shows "Run Sprintf GetExecutor I now b s w =
     (if e1 \<noteq> None then
        Some (e1, fst (Cleanup ex (Finish ex e1 bs1)), snd (Cleanup ex (Finish ex e1 bs1)),
              w\<lparr>events := events w @ [Call_Prepare, Call_Finish e1, Call_Cleanup]\<rparr>)
      else if e2 \<noteq> None then
        Some (e2, fst (Cleanup ex (Finish ex e2 bs2)), snd (Cleanup ex (Finish ex e2 bs2)),
              w\<lparr>events := events w @ [Call_Prepare, Call_Start, Call_Finish e2, Call_Cleanup]\<rparr>)
      else
        Some (e3, fst (Cleanup ex (Finish ex e3 bs3)), snd (Cleanup ex (Finish ex e3 bs3)),
              w\<lparr>events := events w @ [Call_Prepare, Call_Start, Call_Wait, Call_Finish e3, Call_Cleanup]\<rparr>))"
  by (simp add: Run_def assms Let_def record_call_def)

lemma never_answers: "responses world_never k = UpdateFailed"
  by (simp add: world_never_def never_accepts_def)

lemma orphan_not_found: "no_executors (Executor (Runner orphan_job)) = None"
  by (simp add: no_executors_def registered_def)

text \<open>
  \<^bold>\<open>Claim C5\<close> fails as it is stated: with no executor registered and a collaborator
  that answers \<open>UpdateFailed\<close> to every report, \<open>Run\<close> does not return.
\<close>

theorem Run_not_found_never_returns:
  "Run Sprintf_examples no_executors 3 t_finish orphan_job 0 world_never = None"
  using Run_not_found [where GetExecutor = no_executors and b = orphan_job, OF orphan_not_found,
      of Sprintf_examples 3 t_finish 0 world_never]
    SendBuildLog_diverges [of world_never 3, OF never_answers]
  by simp

text \<open>
  \<^bold>\<open>Claim C5, amended.\<close> When the executor name of the build's runner is not registered,
  \<open>Run\<close> finalizes the build as \<open>Failed\<close> with the message \<open>"\nExecutor not found: "\<close>
  and the name as \<open>Sprintf\<close> formats it, and calls \<open>SendBuildLog\<close>. If the collaborator
  answers \<open>UpdateFailed\<close> to the first \<open>n\<close> reports and something else to the next one,
  \<open>Run\<close> returns the error \<open>executor not found\<close> after \<open>n + 1\<close> reports and \<open>n\<close> sleeps
  and has called no stage of any executor; if the collaborator answers \<open>UpdateFailed\<close> to
  every report, \<open>Run\<close> does not return.
\<close>

theorem Run_executor_not_found:
  assumes "GetExecutor (Executor (Runner b)) = None"
    and "b' = FinishBuild Sprintf now Failed ''Executor not found: %v'' [GoString (Executor (Runner b))] b"
  shows "BuildState b' = Failed \<and>
     BuildMessage b' = CHR 0x0A # Sprintf ''Executor not found: %v'' [GoString (Executor (Runner b))] \<and>
     ((\<forall>k<n. responses w k = UpdateFailed) \<and> responses w n \<noteq> UpdateFailed \<longrightarrow>
        (\<exists>w'. Run Sprintf GetExecutor UpdateRetryInterval now b s w =
                 Some (Some (errors_New ''executor not found''), b', s, w') \<and>
              events w' = events w @
                retried n (Call_UpdateBuild (Runner b') (ID b') Failed (BuildLog b' @ BuildMessage b'))
                          (Call_Sleep (UpdateRetryInterval * Second)) \<and>
              executor_calls (events w') = executor_calls (events w))) \<and>
     ((\<forall>k. responses w k = UpdateFailed) \<longrightarrow>
        Run Sprintf GetExecutor UpdateRetryInterval now b s w = None)"
proof -
  note run = Run_not_found [where GetExecutor = GetExecutor and b = b, OF assms(1),
      of Sprintf UpdateRetryInterval now s w]
  have st: "BuildState b' = Failed"
    and msg: "BuildMessage b' = CHR 0x0A # Sprintf ''Executor not found: %v'' [GoString (Executor (Runner b))]"
    by (simp_all add: assms(2) FinishBuild_eq)
  from msg have tr: "buildTrace_of b' = BuildLog b' @ BuildMessage b'"
    by (simp add: buildTrace_of_def)
  have "\<exists>w'. Run Sprintf GetExecutor UpdateRetryInterval now b s w =
                 Some (Some (errors_New ''executor not found''), b', s, w') \<and>
              events w' = events w @
                retried n (Call_UpdateBuild (Runner b') (ID b') Failed (BuildLog b' @ BuildMessage b'))
                          (Call_Sleep (UpdateRetryInterval * Second)) \<and>
              executor_calls (events w') = executor_calls (events w)"
    if "\<forall>k<n. responses w k = UpdateFailed" "responses w n \<noteq> UpdateFailed"
    using SendBuildLog_returns [OF that, of UpdateRetryInterval b'] run
    by (simp add: assms(2) [symmetric] st tr executor_calls_append executor_calls_retried)
  moreover have "Run Sprintf GetExecutor UpdateRetryInterval now b s w = None"
    if "\<forall>k. responses w k = UpdateFailed"
    using SendBuildLog_diverges [of w UpdateRetryInterval b'] that run
    by (simp add: assms(2) [symmetric])
  ultimately show ?thesis using st msg by blast
qed

text \<open>
  No executor is registered and the collaborator accepts the fourth report: \<open>Run\<close> returns
  the error, the build is \<open>Failed\<close> and names \<open>docker-ssh\<close>, and the calls made are four
  reports and three sleeps.
\<close>

theorem Run_executor_not_found_witness:
  "\<exists>b' w'. Run Sprintf_examples no_executors 3 t_finish orphan_job 0 world_retry3 =
       Some (Some (errors_New ''executor not found''), b', 0, w') \<and>
     BuildState b' = Failed \<and>
     BuildMessage b' = CHR 0x0A # ''Executor not found: docker-ssh'' \<and>
     length (events w') = 7 \<and> executor_calls (events w') = []"
proof -
  define b' where "b' = FinishBuild Sprintf_examples t_finish Failed ''Executor not found: %v''
    [GoString (Executor (Runner orphan_job))] orphan_job"
  have name: "Executor (Runner orphan_job) = ''docker-ssh''"
    by (simp add: orphan_job_def runner_docker_ssh_def)
  note th = Run_executor_not_found [where GetExecutor = no_executors and b = orphan_job,
      OF orphan_not_found b'_def, of 3 world_retry3 3 0]
  from th have "BuildState b' = Failed" by blast
  moreover from th have "BuildMessage b' = CHR 0x0A # ''Executor not found: docker-ssh''"
    by (simp add: name Sprintf_examples_not_found)
  moreover from th retry3_answers obtain w' where
    "Run Sprintf_examples no_executors 3 t_finish orphan_job 0 world_retry3 =
       Some (Some (errors_New ''executor not found''), b', 0, w')"
    and ev: "events w' = events world_retry3 @
       retried 3 (Call_UpdateBuild (Runner b') (ID b') Failed (BuildLog b' @ BuildMessage b'))
                 (Call_Sleep (3 * Second))"
    and "executor_calls (events w') = executor_calls (events world_retry3)"
    by blast
  moreover from ev have "length (events w') = 7"
    by (simp add: world_retry3_def retried_Suc retried_0 numeral_3_eq_3)
  ultimately show ?thesis
    by (auto simp: world_retry3_def executor_calls_def)
qed

text \<open>The stages of a recording executor: those of the executor, and the call noted.\<close>

lemma recording_Prepare:
  "Prepare ex config (b, s) = (e, bs) \<Longrightarrow>
   Prepare (recording ex) config (b, s, calls) = (e, fst bs, snd bs, calls @ [Call_Prepare])"
  by (auto simp: recording_def split: prod.splits)

lemma recording_Start:
  "Start ex bs = (e, bs') \<Longrightarrow>
   Start (recording ex) (fst bs, snd bs, calls) = (e, fst bs', snd bs', calls @ [Call_Start])"
  by (cases bs) (auto simp: recording_def split: prod.splits)

lemma recording_Wait:
  "Wait ex bs = (e, bs') \<Longrightarrow>
   Wait (recording ex) (fst bs, snd bs, calls) = (e, fst bs', snd bs', calls @ [Call_Wait])"
  by (cases bs) (auto simp: recording_def split: prod.splits)

lemma recording_Finish_Cleanup:
  "Cleanup (recording ex) (Finish (recording ex) err (fst bs, snd bs, calls)) =
     (fst (Cleanup ex (Finish ex err bs)), snd (Cleanup ex (Finish ex err bs)),
      calls @ [Call_Finish err, Call_Cleanup])"
  by (cases bs; cases "Finish ex err bs"; cases "Cleanup ex (Finish ex err bs)")
    (auto simp: recording_def)

lemma Run_recording:
  assumes "GetRecording (Executor (Runner b)) = Some (recording ex)"
    and "Prepare ex (Runner b) (b, s) = (e1, bs1)"
    and "Start ex bs1 = (e2, bs2)"
    and "Wait ex bs2 = (e3, bs3)"
  shows "Run Sprintf GetRecording I now b (s, calls0) w =
     (if e1 \<noteq> None then
        Some (e1, fst (Cleanup ex (Finish ex e1 bs1)),
              (snd (Cleanup ex (Finish ex e1 bs1)), calls0 @ [Call_Prepare, Call_Finish e1, Call_Cleanup]),
              w\<lparr>events := events w @ [Call_Prepare, Call_Finish e1, Call_Cleanup]\<rparr>)
      else if e2 \<noteq> None then
        Some (e2, fst (Cleanup ex (Finish ex e2 bs2)),
              (snd (Cleanup ex (Finish ex e2 bs2)),
               calls0 @ [Call_Prepare, Call_Start, Call_Finish e2, Call_Cleanup]),
              w\<lparr>events := events w @ [Call_Prepare, Call_Start, Call_Finish e2, Call_Cleanup]\<rparr>)
      else
        Some (e3, fst (Cleanup ex (Finish ex e3 bs3)),
              (snd (Cleanup ex (Finish ex e3 bs3)),
               calls0 @ [Call_Prepare, Call_Start, Call_Wait, Call_Finish e3, Call_Cleanup]),
              w\<lparr>events := events w @ [Call_Prepare, Call_Start, Call_Wait, Call_Finish e3, Call_Cleanup]\<rparr>))"
proof -
  note p = recording_Prepare [OF assms(2), of calls0]
  note st = recording_Start [OF assms(3), of "calls0 @ [Call_Prepare]"]
  note wt = recording_Wait [OF assms(4), of "calls0 @ [Call_Prepare, Call_Start]"]
  from wt have wt': "Wait (recording ex) (fst bs2, snd bs2, (calls0 @ [Call_Prepare]) @ [Call_Start]) =
      (e3, fst bs3, snd bs3, calls0 @ [Call_Prepare, Call_Start, Call_Wait])"
    by simp
  show ?thesis
    unfolding Run_found [where GetExecutor = GetRecording and b = b and s = "(s, calls0)",
        OF assms(1) p st wt']
    by (simp add: recording_Finish_Cleanup)
qed

text \<open>
  \<^bold>\<open>Claim C6.\<close> When the executor name is registered, \<open>Run\<close> returns. It calls \<open>Prepare\<close>,
  then \<open>Start\<close> if \<open>Prepare\<close> returned no error, then \<open>Wait\<close> if \<open>Start\<close> returned none
  either; then \<open>Finish\<close> with the error of the first stage that failed (nil if none did),
  then \<open>Cleanup\<close>; and it returns that error. The build and the executor's state that
  \<open>Run\<close> leaves are those that \<open>Finish\<close> and then \<open>Cleanup\<close> make of what the last
  stage called left, and a recording executor has noted just these calls: \<open>Finish\<close>,
  \<open>Cleanup\<close> and \<open>Prepare\<close> once each, \<open>Start\<close> and \<open>Wait\<close> at most once, and none of
  them after a stage that failed.
\<close>

theorem Run_stages:
  assumes "GetExecutor (Executor (Runner b)) = Some ex"
    and "Prepare ex (Runner b) (b, s) = (e1, bs1)"
    and "Start ex bs1 = (e2, bs2)"
    and "Wait ex bs2 = (e3, bs3)"
  shows "\<exists>err bs calls.
     Run Sprintf GetExecutor UpdateRetryInterval now b s w =
       Some (err, fst (Cleanup ex (Finish ex err bs)), snd (Cleanup ex (Finish ex err bs)),
             w\<lparr>events := events w @ calls\<rparr>) \<and>
     (e1 \<noteq> None \<longrightarrow>
        err = e1 \<and> bs = bs1 \<and> calls = [Call_Prepare, Call_Finish e1, Call_Cleanup]) \<and>
     (e1 = None \<and> e2 \<noteq> None \<longrightarrow>
        err = e2 \<and> bs = bs2 \<and> calls = [Call_Prepare, Call_Start, Call_Finish e2, Call_Cleanup]) \<and>
     (e1 = None \<and> e2 = None \<longrightarrow>
        err = e3 \<and> bs = bs3 \<and>
        calls = [Call_Prepare, Call_Start, Call_Wait, Call_Finish e3, Call_Cleanup]) \<and>
     finish_calls calls = [Call_Finish err] \<and>
     count_list calls Call_Cleanup = 1 \<and>
     count_list calls Call_Prepare = 1 \<and>
     count_list calls Call_Start \<le> 1 \<and>
     count_list calls Call_Wait \<le> 1 \<and>
     (\<forall>GetRecording calls0.
        GetRecording (Executor (Runner b)) = Some (recording ex) \<longrightarrow>
        Run Sprintf GetRecording UpdateRetryInterval now b (s, calls0) w =
          Some (err, fst (Cleanup ex (Finish ex err bs)),
                (snd (Cleanup ex (Finish ex err bs)), calls0 @ calls),
                w\<lparr>events := events w @ calls\<rparr>))"
proof -
  note run = Run_found [where GetExecutor = GetExecutor and b = b, OF assms,
      of Sprintf UpdateRetryInterval now w]
  have rec: "Run Sprintf GetRecording UpdateRetryInterval now b (s, calls0) w =
     (if e1 \<noteq> None then
        Some (e1, fst (Cleanup ex (Finish ex e1 bs1)),
              (snd (Cleanup ex (Finish ex e1 bs1)), calls0 @ [Call_Prepare, Call_Finish e1, Call_Cleanup]),
              w\<lparr>events := events w @ [Call_Prepare, Call_Finish e1, Call_Cleanup]\<rparr>)
      else if e2 \<noteq> None then
        Some (e2, fst (Cleanup ex (Finish ex e2 bs2)),
              (snd (Cleanup ex (Finish ex e2 bs2)),
               calls0 @ [Call_Prepare, Call_Start, Call_Finish e2, Call_Cleanup]),
              w\<lparr>events := events w @ [Call_Prepare, Call_Start, Call_Finish e2, Call_Cleanup]\<rparr>)
      else
        Some (e3, fst (Cleanup ex (Finish ex e3 bs3)),
              (snd (Cleanup ex (Finish ex e3 bs3)),
               calls0 @ [Call_Prepare, Call_Start, Call_Wait, Call_Finish e3, Call_Cleanup]),
              w\<lparr>events := events w @ [Call_Prepare, Call_Start, Call_Wait, Call_Finish e3, Call_Cleanup]\<rparr>))"
    if "GetRecording (Executor (Runner b)) = Some (recording ex)"
    for GetRecording :: "string \<Rightarrow> ('a \<times> event list) Executor option" and calls0
    using that assms(2-4) by (rule Run_recording)
  consider "e1 \<noteq> None" | "e1 = None" "e2 \<noteq> None" | "e1 = None" "e2 = None" by blast
  then show ?thesis
  proof cases
    case 1
    then show ?thesis
      by (intro exI [where x = e1] exI [where x = bs1]
          exI [where x = "[Call_Prepare, Call_Finish e1, Call_Cleanup]"])
        (simp add: run rec finish_calls_def)
  next
    case 2
    then show ?thesis
      by (intro exI [where x = e2] exI [where x = bs2]
          exI [where x = "[Call_Prepare, Call_Start, Call_Finish e2, Call_Cleanup]"])
        (simp add: run rec finish_calls_def)
  next
    case 3
    then show ?thesis
      by (intro exI [where x = e3] exI [where x = bs3]
          exI [where x = "[Call_Prepare, Call_Start, Call_Wait, Call_Finish e3, Call_Cleanup]"])
        (simp add: run rec finish_calls_def)
  qed
qed

text \<open>
  The executor \<open>shell\<close> is registered and its \<open>Prepare\<close> fails. \<open>Run\<close> returns the error
  of \<open>Prepare\<close>; three stages have run on the executor's state, and the recording executor
  has noted \<open>Prepare\<close>, \<open>Finish\<close> with that error, and \<open>Cleanup\<close>: \<open>Start\<close> and \<open>Wait\<close>
  were not called.
\<close>

theorem Run_stages_witness:
  "Run Sprintf_examples (registered [(''shell'', unreachable_daemon)]) 3 t_finish job7 0 world_retry3 =
     Some (Some (errors_New ''cannot connect to the daemon''), job7, 3,
           world_retry3\<lparr>events := [Call_Prepare,
             Call_Finish (Some (errors_New ''cannot connect to the daemon'')), Call_Cleanup]\<rparr>) \<and>
   Run Sprintf_examples (registered [(''shell'', recording unreachable_daemon)]) 3 t_finish job7 (0, [])
       world_retry3 =
     Some (Some (errors_New ''cannot connect to the daemon''), job7,
           (3, [Call_Prepare, Call_Finish (Some (errors_New ''cannot connect to the daemon'')),
                Call_Cleanup]),
           world_retry3\<lparr>events := [Call_Prepare,
             Call_Finish (Some (errors_New ''cannot connect to the daemon'')), Call_Cleanup]\<rparr>)"
proof -
  let ?e = "Some (errors_New ''cannot connect to the daemon'')"
  have found: "registered [(''shell'', unreachable_daemon)] (Executor (Runner job7)) = Some unreachable_daemon"
    by (simp add: registered_def job7_def runner_shell_def)
  have found': "registered [(''shell'', recording unreachable_daemon)] (Executor (Runner job7)) =
      Some (recording unreachable_daemon)"
    by (simp add: registered_def job7_def runner_shell_def)
  have p: "Prepare unreachable_daemon (Runner job7) (job7, 0) = (?e, job7, Suc 0)"
    by (simp add: unreachable_daemon_def stage_fails_def)
  have st: "Start unreachable_daemon (job7, Suc 0) = (None, job7, Suc (Suc 0))"
    by (simp add: unreachable_daemon_def stage_ok_def)
  have wt: "Wait unreachable_daemon (job7, Suc (Suc 0)) = (None, job7, Suc (Suc (Suc 0)))"
    by (simp add: unreachable_daemon_def stage_ok_def)
  have fc: "Cleanup unreachable_daemon (Finish unreachable_daemon ?e (job7, Suc 0)) = (job7, 3)"
    by (simp add: unreachable_daemon_def stage_done_def)
  have ev: "events world_retry3 = []"
    by (simp add: world_retry3_def)
  from Run_stages [where GetExecutor = "registered [(''shell'', unreachable_daemon)]" and b = job7,
      OF found p st wt, of Sprintf_examples 3 t_finish world_retry3]
  obtain err bs calls where
    run: "Run Sprintf_examples (registered [(''shell'', unreachable_daemon)]) 3 t_finish job7 0 world_retry3 =
       Some (err, fst (Cleanup unreachable_daemon (Finish unreachable_daemon err bs)),
             snd (Cleanup unreachable_daemon (Finish unreachable_daemon err bs)),
             world_retry3\<lparr>events := events world_retry3 @ calls\<rparr>)"
    and fail: "err = ?e \<and> bs = (job7, Suc 0) \<and> calls = [Call_Prepare, Call_Finish ?e, Call_Cleanup]"
    and rec: "\<forall>GetRecording calls0.
        GetRecording (Executor (Runner job7)) = Some (recording unreachable_daemon) \<longrightarrow>
        Run Sprintf_examples GetRecording 3 t_finish job7 (0, calls0) world_retry3 =
          Some (err, fst (Cleanup unreachable_daemon (Finish unreachable_daemon err bs)),
                (snd (Cleanup unreachable_daemon (Finish unreachable_daemon err bs)), calls0 @ calls),
                world_retry3\<lparr>events := events world_retry3 @ calls\<rparr>)"
    by auto
  from rec found' have "Run Sprintf_examples (registered [(''shell'', recording unreachable_daemon)]) 3
        t_finish job7 (0, []) world_retry3 =
      Some (err, fst (Cleanup unreachable_daemon (Finish unreachable_daemon err bs)),
            (snd (Cleanup unreachable_daemon (Finish unreachable_daemon err bs)), [] @ calls),
            world_retry3\<lparr>events := events world_retry3 @ calls\<rparr>)"
    by blast
  with run fail show ?thesis
    by (simp add: fc ev)
qed

section \<open>Properties of \<open>ProjectSlug\<close>\<close>

lemma strings_Split_hd: "\<exists>fs. strings_Split s c = takeWhile (\<lambda>x. x \<noteq> c) s # fs"
  by (induction s) (auto split: list.splits)


lemma hostname_plain:
  assumes "CHR '':'' \<notin> set hn"
  shows "hostname hn = hn"
proof -
  have "x \<noteq> CHR '':''" if "x \<in> set hn" for x
    using that assms by auto
  then show ?thesis by (simp add: hostname_def)
qed

text \<open>\<open>ProjectSlug\<close> on a URL that parses and has a host.\<close>

lemma ProjectSlug_Inr:
  assumes "url_Parse (RepoURL b) = Inr u" and "Host u \<noteq> []"
  shows "ProjectSlug url_Parse b =
     (if slug_of (hostname (Host u)) (Path u) = ''.'' then Inl (errors_New ''invalid path'')
      else if strings_Contains (slug_of (hostname (Host u)) (Path u)) ''..''
      then Inl (errors_New ''it doesn't look like a valid path'')
      else Inr (slug_of (hostname (Host u)) (Path u)))"
proof -
  from strings_Split_hd [of "Host u" "CHR '':''"] obtain fs where
    "strings_Split (Host u) (CHR '':'') = hostname (Host u) # fs"
    by (auto simp: hostname_def)
  then show ?thesis
    by (simp add: ProjectSlug_def assms slug_of_def Let_def)
qed

lemma ProjectSlug_Inl: "url_Parse (RepoURL b) = Inl e \<Longrightarrow> ProjectSlug url_Parse b = Inl e"
  by (simp add: ProjectSlug_def)

lemma ProjectSlug_no_host:
  "url_Parse (RepoURL b) = Inr u \<Longrightarrow> Host u = [] \<Longrightarrow>
   ProjectSlug url_Parse b = Inl (errors_New ''only URI reference supported'')"
  by (simp add: ProjectSlug_def)

text \<open>\<open>strings.Contains\<close> finds a substring; an element of a path is a substring of it.\<close>

lemma strings_Contains_iff: "strings_Contains s sub \<longleftrightarrow> (\<exists>pre post. s = pre @ sub @ post)"
proof (induction s)
  case Nil
  then show ?case by auto
next
  case (Cons c cs)
  show ?case
  proof
    assume "strings_Contains (c # cs) sub"
    then consider "prefix sub (c # cs)" | "strings_Contains cs sub" by auto
    then show "\<exists>pre post. c # cs = pre @ sub @ post"
    proof cases
      case 1
      then obtain post where "c # cs = sub @ post" by (auto simp: prefix_def)
      then have "c # cs = [] @ sub @ post" by simp
      then show ?thesis by blast
    next
      case 2
      with Cons.IH obtain pre post where "cs = pre @ sub @ post" by blast
      then have "c # cs = (c # pre) @ sub @ post" by simp
      then show ?thesis by blast
    qed
  next
    assume "\<exists>pre post. c # cs = pre @ sub @ post"
    then obtain pre post where eq: "c # cs = pre @ sub @ post" by blast
    show "strings_Contains (c # cs) sub"
    proof (cases pre)
      case Nil
      with eq have "prefix sub (c # cs)" by (auto simp: prefix_def)
      then show ?thesis by simp
    next
      case (Cons a pre')
      with eq have "cs = pre' @ sub @ post" by simp
      with Cons.IH have "strings_Contains cs sub" by blast
      then show ?thesis by simp
    qed
  qed
qed

lemma strings_Split_elem: "e \<in> set (strings_Split s c) \<Longrightarrow> \<exists>pre post. s = pre @ e @ post"
proof (induction s arbitrary: e)
  case Nil
  then show ?case by simp
next
  case (Cons x xs)
  show ?case
  proof (cases "x = c")
    case True
    with Cons.prems consider "e = []" | "e \<in> set (strings_Split xs c)" by auto
    then show ?thesis
    proof cases
      case 1
      then have "x # xs = [] @ e @ (x # xs)" by simp
      then show ?thesis by blast
    next
      case 2
      from Cons.IH [OF this] obtain pre post where "xs = pre @ e @ post" by blast
      then have "x # xs = (x # pre) @ e @ post" by simp
      then show ?thesis by blast
    qed
  next
    case False
    obtain f fs where sp: "strings_Split xs c = f # fs"
      using strings_Split_hd [of xs c] by blast
    with False Cons.prems consider "e = x # f" | "e \<in> set fs" by auto
    then show ?thesis
    proof cases
      case 1
      from strings_Split_hd [of xs c] sp have "f = takeWhile (\<lambda>y. y \<noteq> c) xs" by simp
      then have "xs = f @ dropWhile (\<lambda>y. y \<noteq> c) xs" by simp
      with 1 have "x # xs = [] @ e @ dropWhile (\<lambda>y. y \<noteq> c) xs" by simp
      then show ?thesis by blast
    next
      case 2
      then have "e \<in> set (strings_Split xs c)" by (simp add: sp)
      from Cons.IH [OF this] obtain pre post where "xs = pre @ e @ post" by blast
      then have "x # xs = (x # pre) @ e @ post" by simp
      then show ?thesis by blast
    qed
  qed
qed

lemma parent_element_Contains:
  "''..'' \<in> set (path_elements slug) \<Longrightarrow> strings_Contains slug ''..''"
  unfolding path_elements_def strings_Contains_iff by (rule strings_Split_elem)

text \<open>The slugs of the examples.\<close>

lemma slug_of_project: "slug_of ''gitlab.example.com'' ''/group/project.git'' = ''gitlab.example.com/group/project''"
  by code_simp

lemma slug_of_inner_dots:
  "slug_of ''gitlab.example.com'' ''/group/my..project.git'' = ''gitlab.example.com/group/my..project''"
  by code_simp

lemma slug_of_traversal: "slug_of ''gitlab.example.com'' ''/../../etc'' = ''../etc''"
  by code_simp

lemma url_Parse_examples_simps:
  "url_Parse_examples ''https://gitlab.example.com/group/project.git'' =
     Inr \<lparr>Host = ''gitlab.example.com'', Path = ''/group/project.git''\<rparr>"
  "url_Parse_examples ''https://gitlab.example.com:8080/group/project.git'' =
     Inr \<lparr>Host = ''gitlab.example.com:8080'', Path = ''/group/project.git''\<rparr>"
  "url_Parse_examples ''https://gitlab.example.com/group/my..project.git'' =
     Inr \<lparr>Host = ''gitlab.example.com'', Path = ''/group/my..project.git''\<rparr>"
  "url_Parse_examples ''https://gitlab.example.com/../../etc'' =
     Inr \<lparr>Host = ''gitlab.example.com'', Path = ''/../../etc''\<rparr>"
  "url_Parse_examples ''group/project.git'' = Inr \<lparr>Host = [], Path = ''group/project.git''\<rparr>"
  "url_Parse_examples ''%zz'' = Inl (errors_New ''parse error'')"
  by (simp_all add: url_Parse_examples_def url_Parse_known_def)

lemma RepoURL_build_for: "RepoURL (build_for rawurl) = rawurl"
  by (simp add: build_for_def new_build_def)

text \<open>
  \<^bold>\<open>Claim C4\<close> fails as it is stated: the URL
  \<open>https://gitlab.example.com/group/my..project.git\<close> has a host, its normalized slug is
  neither \<open>.\<close> nor has it a parent-directory element, and \<open>ProjectSlug\<close> returns an error
  for it, not the slug.
\<close>

theorem ProjectSlug_rejects_inner_dots:
  "url_Parse_examples (RepoURL (build_for ''https://gitlab.example.com/group/my..project.git'')) =
     Inr \<lparr>Host = ''gitlab.example.com'', Path = ''/group/my..project.git''\<rparr> \<and>
   slug_of ''gitlab.example.com'' ''/group/my..project.git'' = ''gitlab.example.com/group/my..project'' \<and>
   ''..'' \<notin> set (path_elements ''gitlab.example.com/group/my..project'') \<and>
   ProjectSlug url_Parse_examples (build_for ''https://gitlab.example.com/group/my..project.git'') =
     Inl (errors_New ''it doesn't look like a valid path'')"
proof -
  have "''..'' \<notin> set (path_elements ''gitlab.example.com/group/my..project'')"
    by code_simp
  moreover have "ProjectSlug url_Parse_examples (build_for ''https://gitlab.example.com/group/my..project.git'') =
     Inl (errors_New ''it doesn't look like a valid path'')"
    by code_simp
  ultimately show ?thesis
    by (simp add: RepoURL_build_for url_Parse_examples_simps slug_of_inner_dots)
qed

text \<open>
  \<^bold>\<open>Claim C4, amended.\<close> \<open>ProjectSlug\<close> returns the error of \<open>url.Parse\<close> when that fails,
  and an error when the parsed host is empty. Otherwise, with the slug being the hostname
  (the host up to its first colon) joined with the path, a trailing \<open>.git\<close> stripped and
  the result normalized: it returns an error when the slug is \<open>.\<close>, an error when the slug
  contains two dots in a row anywhere, which it does whenever it has a parent-directory
  element, and the slug in every other case. For
  \<open>https://gitlab.example.com/group/project.git\<close>, parsed into the host
  \<open>gitlab.example.com\<close> and the path \<open>/group/project.git\<close>, it returns
  \<open>gitlab.example.com/group/project\<close>.
\<close>

theorem ProjectSlug_results:
  "(url_Parse (RepoURL b) = Inl e \<longrightarrow> ProjectSlug url_Parse b = Inl e) \<and>
   (url_Parse (RepoURL b) = Inr u \<and> Host u = [] \<longrightarrow>
      ProjectSlug url_Parse b = Inl (errors_New ''only URI reference supported'')) \<and>
   (url_Parse (RepoURL b) = Inr u \<and> Host u \<noteq> [] \<and> slug = slug_of (hostname (Host u)) (Path u) \<longrightarrow>
      (slug = ''.'' \<longrightarrow> ProjectSlug url_Parse b = Inl (errors_New ''invalid path'')) \<and>
      (slug \<noteq> ''.'' \<and> strings_Contains slug ''..'' \<longrightarrow>
         ProjectSlug url_Parse b = Inl (errors_New ''it doesn't look like a valid path'')) \<and>
      (''..'' \<in> set (path_elements slug) \<longrightarrow> (\<exists>err. ProjectSlug url_Parse b = Inl err)) \<and>
      (slug \<noteq> ''.'' \<and> \<not> strings_Contains slug ''..'' \<longrightarrow> ProjectSlug url_Parse b = Inr slug)) \<and>
   (RepoURL b = ''https://gitlab.example.com/group/project.git'' \<and>
    url_Parse (RepoURL b) = Inr \<lparr>Host = ''gitlab.example.com'', Path = ''/group/project.git''\<rparr> \<longrightarrow>
      ProjectSlug url_Parse b = Inr ''gitlab.example.com/group/project'')"
proof -
  have "ProjectSlug url_Parse b = Inr ''gitlab.example.com/group/project''"
    if "url_Parse (RepoURL b) = Inr \<lparr>Host = ''gitlab.example.com'', Path = ''/group/project.git''\<rparr>"
  proof -
    have "hostname ''gitlab.example.com'' = ''gitlab.example.com''"
      by (rule hostname_plain) simp
    moreover have "\<not> strings_Contains ''gitlab.example.com/group/project'' ''..''"
      by code_simp
    ultimately show ?thesis
      using ProjectSlug_Inr [where url_Parse = url_Parse and b = b, OF that] by (simp add: slug_of_project)
  qed
  moreover have "\<exists>err. ProjectSlug url_Parse b = Inl err"
    if "url_Parse (RepoURL b) = Inr u" "Host u \<noteq> []"
      "''..'' \<in> set (path_elements (slug_of (hostname (Host u)) (Path u)))"
    using ProjectSlug_Inr [where url_Parse = url_Parse and b = b, OF that(1,2)] parent_element_Contains [OF that(3)] by simp
  ultimately show ?thesis
    by (auto simp: ProjectSlug_Inl ProjectSlug_no_host ProjectSlug_Inr)
qed

text \<open>
  The example of the specification, a bare relative reference, a path that climbs out
  with \<open>..\<close>, and a URL that does not parse.
\<close>

theorem ProjectSlug_results_witness:
  "ProjectSlug url_Parse_examples (build_for ''https://gitlab.example.com/group/project.git'') =
     Inr ''gitlab.example.com/group/project'' \<and>
   ProjectSlug url_Parse_examples (build_for ''group/project.git'') =
     Inl (errors_New ''only URI reference supported'') \<and>
   ProjectSlug url_Parse_examples (build_for ''https://gitlab.example.com/../../etc'') =
     Inl (errors_New ''it doesn't look like a valid path'') \<and>
   ProjectSlug url_Parse_examples (build_for ''%zz'') = Inl (errors_New ''parse error'')"
proof -
  have h: "hostname ''gitlab.example.com'' = ''gitlab.example.com''"
    by (rule hostname_plain) simp
  have c: "strings_Contains ''../etc'' ''..''" "''../etc'' \<noteq> ''.''"
    by simp_all
  note r1 = ProjectSlug_results [of url_Parse_examples
      "build_for ''https://gitlab.example.com/group/project.git''" "errors_New ''parse error''"
      "\<lparr>Host = ''gitlab.example.com'', Path = ''/group/project.git''\<rparr>"
      "''gitlab.example.com/group/project''"]
  note r2 = ProjectSlug_results [of url_Parse_examples "build_for ''group/project.git''"
      "errors_New ''parse error''" "\<lparr>Host = [], Path = ''group/project.git''\<rparr>" "[]"]
  note r3 = ProjectSlug_results [of url_Parse_examples
      "build_for ''https://gitlab.example.com/../../etc''" "errors_New ''parse error''"
      "\<lparr>Host = ''gitlab.example.com'', Path = ''/../../etc''\<rparr>" "''../etc''"]
  note r4 = ProjectSlug_results [of url_Parse_examples "build_for ''%zz''"
      "errors_New ''parse error''" "\<lparr>Host = [], Path = []\<rparr>" "[]"]
  from r1 have "ProjectSlug url_Parse_examples (build_for ''https://gitlab.example.com/group/project.git'') =
     Inr ''gitlab.example.com/group/project''"
    by (simp add: RepoURL_build_for url_Parse_examples_simps)
  moreover from r2 have "ProjectSlug url_Parse_examples (build_for ''group/project.git'') =
     Inl (errors_New ''only URI reference supported'')"
    by (simp add: RepoURL_build_for url_Parse_examples_simps)
  moreover from r3 c have "ProjectSlug url_Parse_examples (build_for ''https://gitlab.example.com/../../etc'') =
     Inl (errors_New ''it doesn't look like a valid path'')"
    by (simp add: RepoURL_build_for url_Parse_examples_simps h slug_of_traversal)
  moreover from r4 have "ProjectSlug url_Parse_examples (build_for ''%zz'') = Inl (errors_New ''parse error'')"
    by (simp add: RepoURL_build_for url_Parse_examples_simps)
  ultimately show ?thesis by blast
qed



end
